theory Spec2Isabelle
  imports Main "HOL-Library.Multiset"
begin

section \<open>JavaScript containers used by the backend\<close>

text \<open>
  A JavaScript \<open>Map\<close> keeps its entries in insertion order; \<open>set\<close> on a key that is
  present replaces the value in place, \<open>set\<close> on a new key appends, \<open>delete\<close> drops the
  entry and \<open>keys()\<close> lists the keys in that order. An association list carries exactly
  this.
\<close>

type_synonym ('k, 'v) jsMap = "('k \<times> 'v) list"

primrec mapSet :: "'k \<Rightarrow> 'v \<Rightarrow> ('k, 'v) jsMap \<Rightarrow> ('k, 'v) jsMap" where
  "mapSet k v [] = [(k, v)]"
| "mapSet k v (e # es) = (if fst e = k then (k, v) # es else e # mapSet k v es)"

definition mapDelete :: "'k \<Rightarrow> ('k, 'v) jsMap \<Rightarrow> ('k, 'v) jsMap" where
  "mapDelete k es = filter (\<lambda>e. fst e \<noteq> k) es"

definition mapGet :: "('k, 'v) jsMap \<Rightarrow> 'k \<Rightarrow> 'v option" where
  "mapGet es k = map_of es k"

definition mapKeys :: "('k, 'v) jsMap \<Rightarrow> 'k list" where
  "mapKeys es = map fst es"

text \<open>
  A JavaScript \<open>Set\<close> of strings, in insertion order: \<open>add\<close> of a member changes nothing.
\<close>

definition setAdd :: "'a list \<Rightarrow> 'a \<Rightarrow> 'a list" where
  "setAdd s x = (if x \<in> set s then s else s @ [x])"

text \<open>
  Truthiness of an optional string field (\<open>undefined\<close>, \<open>null\<close> and the empty string are
  falsy).
\<close>

definition truthy :: "string option \<Rightarrow> bool" where
  "truthy v = (case v of None \<Rightarrow> False | Some s \<Rightarrow> s \<noteq> [])"

section \<open>Presence and delivery: \<open>backend/server.js\<close>\<close>

type_synonym objectId = string

record connectionRecord =
  userId :: objectId
  userRole :: string
  socketId :: string
  lastActive :: int

text \<open>
  A connected socket after the authentication middleware has set \<open>socket.userId\<close> and
  \<open>socket.userRole\<close>, with the rooms it has joined.
\<close>

record socket =
  sock_id :: string
  sock_userId :: objectId
  sock_userRole :: string
  sock_rooms :: "string list"

record party =
  party_id :: "string option"
  party_fullName :: "string option"

text \<open>The payload of a \<open>send_message\<close> event; every field may be absent.\<close>

record chatMessage =
  msg_id :: "string option"
  msg_recipient :: "party option"
  msg_sender :: "party option"
  msg_content :: "string option"

record messageSent =
  ack_messageId :: "string option"
  ack_recipientId :: string
  ack_timestamp :: int

datatype event =
    OnlineUsers "objectId list"
  | NewMessage chatMessage
  | MessageSent messageSent

text \<open>An emitted event together with the socket it is written to.\<close>

type_synonym delivery = "string \<times> event"

record server =
  onlineUsers :: "(objectId, connectionRecord) jsMap"
  sockets :: "socket list"

definition initialServer :: server where
  "initialServer = \<lparr>onlineUsers = [], sockets = []\<rparr>"

definition listOnline :: "server \<Rightarrow> objectId list" where
  "listOnline st = mapKeys (onlineUsers st)"

text \<open>\<open>io.emit\<close>: to every connected socket.\<close>

definition ioEmit :: "server \<Rightarrow> event \<Rightarrow> delivery list" where
  "ioEmit st ev = map (\<lambda>s. (sock_id s, ev)) (sockets st)"

text \<open>\<open>io.to(room).emit\<close>: to every connected socket that has joined the room.\<close>

definition ioToEmit :: "server \<Rightarrow> string \<Rightarrow> event \<Rightarrow> delivery list" where
  "ioToEmit st room ev =
     map (\<lambda>s. (sock_id s, ev)) (filter (\<lambda>s. room \<in> set (sock_rooms s)) (sockets st))"

text \<open>
  The \<open>connection\<close> handler: the registry entry of the user is set, the socket joins its
  personal room and the room of its role, and the key list is broadcast.
\<close>

definition onConnection :: "int \<Rightarrow> socket \<Rightarrow> server \<Rightarrow> server \<times> delivery list" where
  "onConnection now sock st =
     (let users' = mapSet (sock_userId sock)
                     \<lparr>userId = sock_userId sock, userRole = sock_userRole sock,
                      socketId = sock_id sock, lastActive = now\<rparr> (onlineUsers st);
          joined = sock\<lparr>sock_rooms := sock_rooms sock @ [sock_userId sock] @
                     (if sock_userRole sock \<noteq> [] then [''role:'' @ sock_userRole sock] else [])\<rparr>;
          st' = \<lparr>onlineUsers = users', sockets = sockets st @ [joined]\<rparr>
      in (st', ioEmit st' (OnlineUsers (mapKeys users'))))"

text \<open>The \<open>get_online_users\<close> handler answers the asking socket only.\<close>

definition onGetOnlineUsers :: "socket \<Rightarrow> server \<Rightarrow> server \<times> delivery list" where
  "onGetOnlineUsers sock st = (st, [(sock_id sock, OnlineUsers (mapKeys (onlineUsers st)))])"

text \<open>
  The \<open>disconnect\<close> handler. The transport has already dropped the socket from the
  connected set when the handler runs; the registry entry is deleted by user id.
\<close>

definition onDisconnect :: "socket \<Rightarrow> server \<Rightarrow> server \<times> delivery list" where
  "onDisconnect sock st =
     (let st' = \<lparr>onlineUsers = mapDelete (sock_userId sock) (onlineUsers st),
                 sockets = filter (\<lambda>s. sock_id s \<noteq> sock_id sock) (sockets st)\<rparr>
      in (st', ioEmit st' (OnlineUsers (mapKeys (onlineUsers st')))))"

text \<open>
  The \<open>send_message\<close> handler. A payload without a recipient id is logged and dropped.
  Otherwise the sender's \<open>lastActive\<close> is refreshed, the message goes to the recipient's
  room and the acknowledgment to the sending socket. The closing log line reads
  \<open>message.sender.fullName\<close>, which throws a TypeError when the payload has no sender;
  the third component of the result is that exception.
\<close>

definition onSendMessage ::
  "int \<Rightarrow> socket \<Rightarrow> chatMessage option \<Rightarrow> server \<Rightarrow> server \<times> delivery list \<times> string option" where
  "onSendMessage now sock message st =
     (case message of
        None \<Rightarrow> (st, [], None)
      | Some m \<Rightarrow>
          (case msg_recipient m of
             None \<Rightarrow> (st, [], None)
           | Some r \<Rightarrow>
               if \<not> truthy (party_id r) then (st, [], None)
               else
                 let rid = (case party_id r of Some i \<Rightarrow> i | None \<Rightarrow> []);
                     users' = (case mapGet (onlineUsers st) (sock_userId sock) of
                                 None \<Rightarrow> onlineUsers st
                               | Some userData \<Rightarrow>
                                   mapSet (sock_userId sock) (userData\<lparr>lastActive := now\<rparr>)
                                     (onlineUsers st));
                     st' = st\<lparr>onlineUsers := users'\<rparr>;
                     ack = \<lparr>ack_messageId = msg_id m, ack_recipientId = rid, ack_timestamp = now\<rparr>
                 in (st',
                     ioToEmit st' rid (NewMessage m) @ [(sock_id sock, MessageSent ack)],
                     (case msg_sender m of
                        None \<Rightarrow> Some ''TypeError''
                      | Some _ \<Rightarrow> None))))"

text \<open>The socket events the server reacts to, and a run of the server over a trace.\<close>

datatype socketEvent =
    Connection int socket
  | GetOnlineUsers socket
  | SendMessage int socket "chatMessage option"
  | Disconnect socket

fun handle :: "server \<Rightarrow> socketEvent \<Rightarrow> server" where
  "handle st (Connection now sock) = fst (onConnection now sock st)"
| "handle st (GetOnlineUsers sock) = fst (onGetOnlineUsers sock st)"
| "handle st (SendMessage now sock message) = fst (onSendMessage now sock message st)"
| "handle st (Disconnect sock) = fst (onDisconnect sock st)"

definition run :: "socketEvent list \<Rightarrow> server" where
  "run evs = foldl handle initialServer evs"

section \<open>Persisted documents\<close>

text \<open>
  The fields of the \<open>User\<close> schema that the messaging controller reads. A collection is
  the list of its documents in natural order.
\<close>

record user =
  uid :: objectId
  fullName :: string
  profileImage :: string
  role :: string
  mentor :: "objectId option"

text \<open>
  Modelled from the spec: \<open>models/Message.js\<close> is not among the sources. The fields are
  those of the spec's data model and of the controller's queries: sender, recipient,
  content, read (default false) and the creation timestamp in milliseconds.
\<close>

record message =
  mid :: objectId
  sender :: objectId
  recipient :: objectId
  content :: string
  read :: bool
  createdAt :: int

text \<open>
  The database. \<open>updateManyCalls\<close> is a ghost counter of the \<open>updateMany\<close> commands
  issued so far; no handler reads it.
\<close>

record database =
  users :: "user list"
  messages :: "message list"
  updateManyCalls :: nat

definition findById :: "user list \<Rightarrow> objectId \<Rightarrow> user option" where
  "findById us i = find (\<lambda>u. uid u = i) us"

definition findByRole :: "user list \<Rightarrow> string \<Rightarrow> user list" where
  "findByRole us r = filter (\<lambda>u. role u = r) us"

text \<open>
  \<open>.sort({createdAt: 1})\<close> and \<open>.sort({createdAt: -1})\<close>. MongoDB leaves the order of
  documents with equal keys open; the stable sort over collection order is one of the
  orders it may return. What is proved below about a sorted answer is stated for every
  arrangement in key order, not for this one alone.
\<close>

definition sortCreatedAsc :: "message list \<Rightarrow> message list" where
  "sortCreatedAsc ms = sort_key createdAt ms"

definition sortCreatedDesc :: "message list \<Rightarrow> message list" where
  "sortCreatedDesc ms = sort_key (\<lambda>m. - createdAt m) ms"

definition findOne :: "message list \<Rightarrow> message option" where
  "findOne ms = (case ms of [] \<Rightarrow> None | m # _ \<Rightarrow> Some m)"

text \<open>
  \<open>Message.updateMany({sender, recipient, read: false}, {read: true})\<close>: the updated
  collection and the number of documents modified.
\<close>

definition unreadFrom :: "objectId \<Rightarrow> objectId \<Rightarrow> message \<Rightarrow> bool" where
  "unreadFrom s r m = (sender m = s \<and> recipient m = r \<and> \<not> read m)"

definition markAllRead :: "objectId \<Rightarrow> objectId \<Rightarrow> database \<Rightarrow> database \<times> nat" where
  "markAllRead s r db =
     (db\<lparr>messages := map (\<lambda>m. if unreadFrom s r m then m\<lparr>read := True\<rparr> else m) (messages db),
         updateManyCalls := Suc (updateManyCalls db)\<rparr>,
      length (filter (unreadFrom s r) (messages db)))"

text \<open>\<open>.populate(path, 'fullName profileImage role')\<close>: the reference is replaced by the
  selected fields of the user document, or by \<open>null\<close> when no such user exists.\<close>

record userRef =
  ref_id :: objectId
  ref_fullName :: string
  ref_profileImage :: string
  ref_role :: string

record populatedMessage =
  p_id :: objectId
  p_sender :: "userRef option"
  p_recipient :: "userRef option"
  p_content :: string
  p_read :: bool
  p_createdAt :: int

definition selectRef :: "user \<Rightarrow> userRef" where
  "selectRef u = \<lparr>ref_id = uid u, ref_fullName = fullName u,
                  ref_profileImage = profileImage u, ref_role = role u\<rparr>"

definition populate :: "user list \<Rightarrow> message \<Rightarrow> populatedMessage" where
  "populate us m =
     \<lparr>p_id = mid m,
      p_sender = map_option selectRef (findById us (sender m)),
      p_recipient = map_option selectRef (findById us (recipient m)),
      p_content = content m, p_read = read m, p_createdAt = createdAt m\<rparr>"

section \<open>HTTP results\<close>

text \<open>
  A handler either throws after setting a status (\<open>res.status(n); throw new Error(msg)\<close>)
  or answers with a status and a JSON body.
\<close>

datatype httpError = HttpError (status: nat) (errorMessage: string)

type_synonym 'a result = "httpError + nat \<times> 'a"



text \<open>
  \<open>User.findById\<close> on a string taken from the request. Mongoose casts the string to an
  ObjectId before it queries and rejects with a CastError when it cannot. No handler
  catches that and the application installs no error middleware, so the request ends
  with status 500. Which strings cast is decided by the library, which is not among the
  sources: the predicate \<open>castable\<close> is a parameter of every handler that looks up an id
  from the request.
\<close>

definition findByIdCast :: "(string \<Rightarrow> bool) \<Rightarrow> user list \<Rightarrow> string \<Rightarrow> httpError + user option" where
  "findByIdCast castable us i =
     (if castable i then Inr (findById us i) else Inl (HttpError 500 ''CastError''))"

section \<open>Message store access: \<open>backend/controllers/messageController.js\<close>\<close>

text \<open>
  \<open>sendMessage\<close>. \<open>reqUser\<close> is \<open>req.user.id\<close>, the id of the authenticated user's own
  document; \<open>newId\<close> is the identifier the driver gives the created document and \<open>now\<close>
  its creation time. The request body's fields may be absent.
\<close>

definition sendMessage ::
  "(string \<Rightarrow> bool) \<Rightarrow> objectId \<Rightarrow> int \<Rightarrow> objectId \<Rightarrow> string option \<Rightarrow> string option
     \<Rightarrow> database \<Rightarrow> populatedMessage option result \<times> database" where
  "sendMessage castable newId now reqUser recipientId content' db =
     (if \<not> truthy recipientId \<or> \<not> truthy content' then
        (Inl (HttpError 400 ''Please provide recipient and message content''), db)
      else
        let rid = (case recipientId of Some i \<Rightarrow> i | None \<Rightarrow> []);
            text = (case content' of Some c \<Rightarrow> c | None \<Rightarrow> [])
        in case findByIdCast castable (users db) rid of
             Inl castError \<Rightarrow> (Inl castError, db)
           | Inr None \<Rightarrow> (Inl (HttpError 404 ''Recipient not found''), db)
           | Inr (Some recipientDoc) \<Rightarrow>
               let created = \<lparr>mid = newId, sender = reqUser, recipient = rid, content = text,
                              read = False, createdAt = now\<rparr>;
                   db' = db\<lparr>messages := messages db @ [created]\<rparr>;
                   populatedMessage =
                     map_option (populate (users db')) (find (\<lambda>m. mid m = newId) (messages db'))
               in (Inr (201, populatedMessage), db'))"

definition between :: "objectId \<Rightarrow> objectId \<Rightarrow> message \<Rightarrow> bool" where
  "between a b m = ((sender m = a \<and> recipient m = b) \<or> (sender m = b \<and> recipient m = a))"

text \<open>
  \<open>getConversation\<close>: the query is awaited first, the documents it returned are what the
  response carries; the \<open>updateMany\<close> that follows changes the collection only.
\<close>

definition getConversation ::
  "(string \<Rightarrow> bool) \<Rightarrow> objectId \<Rightarrow> string \<Rightarrow> database
     \<Rightarrow> populatedMessage list result \<times> database" where
  "getConversation castable reqUser userId' db =
     (case findByIdCast castable (users db) userId' of
        Inl castError \<Rightarrow> (Inl castError, db)
      | Inr None \<Rightarrow> (Inl (HttpError 404 ''User not found''), db)
      | Inr (Some userDoc) \<Rightarrow>
          let found = map (populate (users db))
                        (sortCreatedAsc (filter (between reqUser userId') (messages db)));
              db' = fst (markAllRead userId' reqUser db)
          in (Inr (200, found), db'))"

subsection \<open>Mark as read, throttled\<close>

record readReply =
  rr_message :: string
  rr_count :: nat
  rr_cached :: bool

definition cacheKey :: "objectId \<Rightarrow> objectId \<Rightarrow> string" where
  "cacheKey recipientId senderId = recipientId @ ''-'' @ senderId"

text \<open>\<open>readOperationsCache.get(cacheKey) || 0\<close>\<close>

definition lastOperation :: "(string, int) jsMap \<Rightarrow> string \<Rightarrow> int" where
  "lastOperation cache k = (case mapGet cache k of None \<Rightarrow> 0 | Some t \<Rightarrow> if t = 0 then 0 else t)"

definition cachedReply :: readReply where
  "cachedReply = \<lparr>rr_message = ''Messages already marked as read recently'',
                   rr_count = 0, rr_cached = True\<rparr>"

text \<open>
  \<open>markMessagesAsRead\<close>, with the module's \<open>readOperationsCache\<close> passed in and returned.
  \<open>recipientId\<close> is \<open>req.user.id\<close>. A reply without the \<open>cached\<close> field has
  \<open>rr_cached = False\<close>.
\<close>

definition markMessagesAsRead ::
  "(string \<Rightarrow> bool) \<Rightarrow> int \<Rightarrow> objectId \<Rightarrow> string \<Rightarrow> (string, int) jsMap \<Rightarrow> database
     \<Rightarrow> readReply result \<times> (string, int) jsMap \<times> database" where
  "markMessagesAsRead castable now recipientId senderId cache db =
     (let k = cacheKey recipientId senderId in
      if now - lastOperation cache k < 5000 then (Inr (200, cachedReply), cache, db)
      else
        let cache' = filter (\<lambda>(key, timestamp). \<not> now - timestamp > 60000) (mapSet k now cache)
        in case findByIdCast castable (users db) senderId of
             Inl castError \<Rightarrow> (Inl castError, cache', db)
           | Inr None \<Rightarrow> (Inl (HttpError 404 ''Sender not found''), cache', db)
           | Inr (Some senderDoc) \<Rightarrow>
               let (db', nModified) = markAllRead senderId recipientId db
               in (Inr (200, \<lparr>rr_message = ''Messages marked as read'',
                               rr_count = nModified, rr_cached = False\<rparr>), cache', db'))"

section \<open>Contact resolution and aggregation\<close>

text \<open>
  The parts of the JavaScript runtime whose results depend on the host's locale and time
  zone are parameters: the two date formatters, the local time zone adjustment and the
  collation of \<open>String.prototype.localeCompare\<close>.
\<close>

record runtime =
  toLocaleTimeString :: "int \<Rightarrow> string"
  toLocaleDateString :: "int \<Rightarrow> string"
  localTZA :: "int \<Rightarrow> int"
  localeCompare :: "string \<Rightarrow> string \<Rightarrow> int"

definition msPerDay :: int where
  "msPerDay = 1000 * 60 * 60 * 24"

text \<open>\<open>Date.prototype.getDay\<close>: the week day of the local time, 0 for Sunday.\<close>

definition getDay :: "runtime \<Rightarrow> int \<Rightarrow> nat" where
  "getDay rt t = nat (((t + localTZA rt t) div msPerDay + 4) mod 7)"

definition days :: "string list" where
  "days = [''Sun'', ''Mon'', ''Tue'', ''Wed'', ''Thu'', ''Fri'', ''Sat'']"

record contactView =
  cv_id :: objectId
  cv_fullName :: string
  cv_profileImage :: string
  cv_role :: string
  unreadCount :: nat
  lastMessageTime :: string

text \<open>The first loop: the other party of every message of the requester, as a \<open>Set\<close>.\<close>

definition messageUserIds :: "objectId \<Rightarrow> message list \<Rightarrow> objectId list" where
  "messageUserIds cur ms =
     foldl (\<lambda>s m. let s1 = (if sender m \<noteq> cur then setAdd s (sender m) else s)
                   in if recipient m \<noteq> cur then setAdd s1 (recipient m) else s1) [] ms"

text \<open>
  The \<open>switch\<close> on the requester's role. The queries of this model cannot reject, so the
  \<open>catch\<close> branch of the source (all admins) has no trigger here.
\<close>

definition roleContacts :: "user list \<Rightarrow> user \<Rightarrow> user list" where
  "roleContacts us currentUser =
     (if role currentUser = ''user'' then
        (case mentor currentUser of
           None \<Rightarrow> []
         | Some mentorId \<Rightarrow> (case findById us mentorId of None \<Rightarrow> [] | Some m \<Rightarrow> [m]))
        @ findByRole us ''admin'' @ findByRole us ''mentor''
      else if role currentUser = ''mentor'' then
        filter (\<lambda>u. mentor u = Some (uid currentUser)) us
        @ findByRole us ''admin'' @ findByRole us ''user''
      else if role currentUser = ''admin'' then
        filter (\<lambda>u. uid u \<noteq> uid currentUser) us
      else findByRole us ''admin'')"

text \<open>Merging: a role-derived contact is pushed unless its id is already in the list.\<close>

definition mergeContacts :: "user list \<Rightarrow> user list \<Rightarrow> user list" where
  "mergeContacts contactsWithMessages contacts =
     foldl (\<lambda>allContacts contact.
              if list_ex (\<lambda>c. uid c = uid contact) allContacts then allContacts
              else allContacts @ [contact])
       contactsWithMessages contacts"

definition formatLastMessageTime :: "runtime \<Rightarrow> int \<Rightarrow> message option \<Rightarrow> string" where
  "formatLastMessageTime rt now latestMessage =
     (case latestMessage of
        None \<Rightarrow> []
      | Some m \<Rightarrow>
          let messageDate = createdAt m;
              diffDays = (now - messageDate) div msPerDay
          in if diffDays = 0 then toLocaleTimeString rt messageDate
             else if diffDays = 1 then ''Yesterday''
             else if diffDays < 7 then days ! getDay rt messageDate
             else toLocaleDateString rt messageDate)"

definition contactStats :: "runtime \<Rightarrow> int \<Rightarrow> message list \<Rightarrow> user \<Rightarrow> user \<Rightarrow> contactView" where
  "contactStats rt now ms currentUser contact =
     (let unread = length (filter (unreadFrom (uid contact) (uid currentUser)) ms);
          latestMessage =
            findOne (sortCreatedDesc (filter (between (uid currentUser) (uid contact)) ms))
      in \<lparr>cv_id = uid contact, cv_fullName = fullName contact,
           cv_profileImage = profileImage contact, cv_role = role contact,
           unreadCount = unread,
           lastMessageTime = formatLastMessageTime rt now latestMessage\<rparr>)"

text \<open>The comparator handed to \<open>Array.prototype.sort\<close>.\<close>

definition compareContacts :: "runtime \<Rightarrow> contactView \<Rightarrow> contactView \<Rightarrow> int" where
  "compareContacts rt a b =
     (if unreadCount b \<noteq> unreadCount a then int (unreadCount b) - int (unreadCount a)
      else if lastMessageTime a \<noteq> [] \<and> lastMessageTime b \<noteq> [] then
        localeCompare rt (lastMessageTime b) (lastMessageTime a)
      else if lastMessageTime a \<noteq> [] \<and> lastMessageTime b = [] then - 1
      else if lastMessageTime a = [] \<and> lastMessageTime b \<noteq> [] then 1
      else localeCompare rt (cv_fullName a) (cv_fullName b))"

text \<open>
  \<open>Array.prototype.sort\<close> with a comparator: a stable sort, here by insertion. An element
  goes in front of the first one it does not compare greater than.
\<close>

fun insertBy :: "('a \<Rightarrow> 'a \<Rightarrow> int) \<Rightarrow> 'a \<Rightarrow> 'a list \<Rightarrow> 'a list" where
  "insertBy cmp x [] = [x]"
| "insertBy cmp x (y # ys) = (if cmp x y \<le> 0 then x # y # ys else y # insertBy cmp x ys)"

definition arraySort :: "('a \<Rightarrow> 'a \<Rightarrow> int) \<Rightarrow> 'a list \<Rightarrow> 'a list" where
  "arraySort cmp xs = foldr (insertBy cmp) xs []"

text \<open>
  The users the requester has exchanged messages with: the ids collected from the
  requester's messages, then one \<open>User.find\<close> with \<open>$in\<close>, which answers in the order of
  the collection.
\<close>

definition contactsWithMessages :: "database \<Rightarrow> user \<Rightarrow> user list" where
  "contactsWithMessages db currentUser =
     (let found = sortCreatedDesc
                    (filter (\<lambda>m. sender m = uid currentUser \<or> recipient m = uid currentUser)
                       (messages db));
          ids = messageUserIds (uid currentUser) found
      in if length ids > 0 then filter (\<lambda>u. uid u \<in> set ids) (users db) else [])"

definition allContacts :: "database \<Rightarrow> user \<Rightarrow> user list" where
  "allContacts db currentUser =
     mergeContacts (contactsWithMessages db currentUser) (roleContacts (users db) currentUser)"

text \<open>
  \<open>getChatContacts\<close>. \<open>reqUser\<close> is \<open>req.user.id\<close>, which the authentication middleware
  took from a stored document, so this lookup casts. A requester that is no longer in
  the collection makes \<open>currentUser._id\<close> throw, which the async wrapper turns into a
  server error.
\<close>

definition getChatContacts ::
  "runtime \<Rightarrow> int \<Rightarrow> objectId \<Rightarrow> database \<Rightarrow> contactView list result" where
  "getChatContacts rt now reqUser db =
     (case findById (users db) reqUser of
        None \<Rightarrow> Inl (HttpError 500 ''TypeError'')
      | Some currentUser \<Rightarrow>
          let contactsWithUnreadCounts =
                map (contactStats rt now (messages db) currentUser) (allContacts db currentUser)
          in Inr (200, arraySort (compareContacts rt) contactsWithUnreadCounts))"

text \<open>
  What \<open>Array.prototype.sort\<close> asks of its comparator, as far as the order of the result
  depends on it: of two elements one does not compare greater than the other, and
  ``not greater'' is transitive.
\<close>

definition consistentComparator :: "('a \<Rightarrow> 'a \<Rightarrow> int) \<Rightarrow> bool" where
  "consistentComparator cmp =
     ((\<forall>a b. 0 < cmp a b \<longrightarrow> cmp b a \<le> 0)
      \<and> (\<forall>a b c. cmp a b \<le> 0 \<and> cmp b c \<le> 0 \<longrightarrow> cmp a c \<le> 0))"

text \<open>\<open>resolve\<close>: the user ids of the contact list that \<open>getChatContacts\<close> answers with.\<close>

definition resolve :: "runtime \<Rightarrow> int \<Rightarrow> objectId \<Rightarrow> database \<Rightarrow> objectId list" where
  "resolve rt now reqUser db =
     (case getChatContacts rt now reqUser db of
        Inl e \<Rightarrow> []
      | Inr (code, contacts) \<Rightarrow> map cv_id contacts)"

section \<open>Example data\<close>

text \<open>
  Identifiers as MongoDB writes them, 24 hexadecimal digits, and a cast for the examples
  that accepts exactly such strings.
\<close>

abbreviation aliceId :: objectId where "aliceId \<equiv> ''aaaaaaaaaaaaaaaaaaaaaaaa''"

abbreviation bobId :: objectId where "bobId \<equiv> ''bbbbbbbbbbbbbbbbbbbbbbbb''"

abbreviation miaId :: objectId where "miaId \<equiv> ''cccccccccccccccccccccccc''"

abbreviation adaId :: objectId where "adaId \<equiv> ''dddddddddddddddddddddddd''"

abbreviation unknownId :: objectId where "unknownId \<equiv> ''ffffffffffffffffffffffff''"

abbreviation msgId0 :: objectId where "msgId0 \<equiv> ''000000000000000000000000''"

abbreviation msgId1 :: objectId where "msgId1 \<equiv> ''111111111111111111111111''"

abbreviation msgId2 :: objectId where "msgId2 \<equiv> ''222222222222222222222222''"

abbreviation msgId3 :: objectId where "msgId3 \<equiv> ''333333333333333333333333''"

definition isHexDigit :: "char \<Rightarrow> bool" where
  "isHexDigit c = (c \<in> set ''0123456789abcdefABCDEF'')"

definition isObjectIdString :: "string \<Rightarrow> bool" where
  "isObjectIdString s = (length s = 24 \<and> list_all isHexDigit s)"

definition alice :: user where
  "alice = \<lparr>uid = aliceId, fullName = ''Alice'', profileImage = ''a.png'', role = ''user'',
             mentor = Some miaId\<rparr>"

definition bob :: user where
  "bob = \<lparr>uid = bobId, fullName = ''Bob'', profileImage = ''b.png'', role = ''user'',
           mentor = None\<rparr>"

definition mia :: user where
  "mia = \<lparr>uid = miaId, fullName = ''Mia'', profileImage = ''m.png'', role = ''mentor'',
           mentor = None\<rparr>"

definition ada :: user where
  "ada = \<lparr>uid = adaId, fullName = ''Ada'', profileImage = ''r.png'', role = ''admin'',
           mentor = None\<rparr>"

definition hello :: message where
  "hello = \<lparr>mid = msgId1, sender = aliceId, recipient = bobId, content = ''Hello'',
             read = False, createdAt = 1000\<rparr>"

definition exampleDb :: database where
  "exampleDb = \<lparr>users = [alice, bob, mia, ada], messages = [hello], updateManyCalls = 0\<rparr>"

definition memo :: message where
  "memo = \<lparr>mid = msgId0, sender = bobId, recipient = bobId, content = ''Remember'',
            read = False, createdAt = 1000\<rparr>"

definition selfDb :: database where
  "selfDb = \<lparr>users = [bob], messages = [memo], updateManyCalls = 0\<rparr>"

definition inboxDb :: database where
  "inboxDb = \<lparr>users = [alice, bob, mia, ada],
               messages = [hello,
                 \<lparr>mid = msgId2, sender = miaId, recipient = bobId, content = ''Welcome'',
                  read = False, createdAt = 2000\<rparr>,
                 \<lparr>mid = msgId3, sender = miaId, recipient = bobId, content = ''Any questions?'',
                  read = False, createdAt = 3000\<rparr>],
               updateManyCalls = 0\<rparr>"

text \<open>A collation for the examples: strings compared by character code.\<close>

fun compareStrings :: "string \<Rightarrow> string \<Rightarrow> int" where
  "compareStrings [] [] = 0"
| "compareStrings [] (y # ys) = - 1"
| "compareStrings (x # xs) [] = 1"
| "compareStrings (x # xs) (y # ys) =
     (if (of_char x :: nat) < of_char y then - 1
      else if (of_char y :: nat) < of_char x then 1
      else compareStrings xs ys)"

definition exampleRuntime :: runtime where
  "exampleRuntime = \<lparr>toLocaleTimeString = (\<lambda>t. ''12:00 AM''),
                      toLocaleDateString = (\<lambda>t. ''1/1/1970''),
                      localTZA = (\<lambda>t. 0),
                      localeCompare = compareStrings\<rparr>"

definition inboxContacts :: "contactView list" where
  "inboxContacts =
     [\<lparr>cv_id = miaId, cv_fullName = ''Mia'', cv_profileImage = ''m.png'', cv_role = ''mentor'',
       unreadCount = 2, lastMessageTime = ''12:00 AM''\<rparr>,
      \<lparr>cv_id = aliceId, cv_fullName = ''Alice'', cv_profileImage = ''a.png'', cv_role = ''user'',
       unreadCount = 1, lastMessageTime = ''12:00 AM''\<rparr>,
      \<lparr>cv_id = adaId, cv_fullName = ''Ada'', cv_profileImage = ''r.png'', cv_role = ''admin'',
       unreadCount = 0, lastMessageTime = []\<rparr>]"

definition sockA :: socket where
  "sockA = \<lparr>sock_id = ''s1'', sock_userId = aliceId, sock_userRole = ''user'', sock_rooms = []\<rparr>"

definition sockA' :: socket where
  "sockA' = \<lparr>sock_id = ''s2'', sock_userId = aliceId, sock_userRole = ''user'', sock_rooms = []\<rparr>"

definition helloEvent :: chatMessage where
  "helloEvent = \<lparr>msg_id = Some msgId1,
                  msg_recipient = Some \<lparr>party_id = Some bobId, party_fullName = Some ''Bob''\<rparr>,
                  msg_sender = Some \<lparr>party_id = Some aliceId, party_fullName = Some ''Alice''\<rparr>,
                  msg_content = Some ''Hello''\<rparr>"

section \<open>Properties of the connection registry\<close>

lemma mapSet_keys: "fst ` set (mapSet k v es) = insert k (fst ` set es)"
  by (induction es) auto

lemma mapSet_distinct: "distinct (map fst es) \<Longrightarrow> distinct (map fst (mapSet k v es))"
proof (induction es)
  case Nil
  then show ?case by simp
next
  case (Cons e es)
  then show ?case by (auto simp: mapSet_keys)
qed

lemma mapDelete_distinct: "distinct (map fst es) \<Longrightarrow> distinct (map fst (mapDelete k es))"
  by (simp add: mapDelete_def distinct_map_filter)

lemma mapGet_mapSet: "mapGet (mapSet k v es) k' = (if k' = k then Some v else mapGet es k')"
  by (induction es) (auto simp: mapGet_def)

lemma mapDelete_keys: "k \<notin> set (mapKeys (mapDelete k es))"
  by (auto simp: mapKeys_def mapDelete_def)

lemma handle_distinct:
  "distinct (mapKeys (onlineUsers st)) \<Longrightarrow> distinct (mapKeys (onlineUsers (handle st ev)))"
proof (cases ev)
  case (Connection now sock)
  assume "distinct (mapKeys (onlineUsers st))"
  then show ?thesis
    using Connection by (simp add: onConnection_def Let_def mapKeys_def mapSet_distinct)
next
  case (GetOnlineUsers sock)
  assume "distinct (mapKeys (onlineUsers st))"
  then show ?thesis using GetOnlineUsers by (simp add: onGetOnlineUsers_def)
next
  case (SendMessage now sock message)
  assume "distinct (mapKeys (onlineUsers st))"
  then show ?thesis
    using SendMessage
    by (auto simp: onSendMessage_def Let_def mapKeys_def mapSet_distinct
             split: option.splits)
next
  case (Disconnect sock)
  assume "distinct (mapKeys (onlineUsers st))"
  then show ?thesis
    using Disconnect by (simp add: onDisconnect_def Let_def mapKeys_def mapDelete_distinct)
qed

lemma foldl_handle_distinct:
  "distinct (mapKeys (onlineUsers st)) \<Longrightarrow> distinct (mapKeys (onlineUsers (foldl handle st evs)))"
  by (induction evs arbitrary: st) (auto simp: handle_distinct)

lemma run_distinct: "distinct (listOnline (run evs))"
  unfolding run_def listOnline_def
  by (rule foldl_handle_distinct) (simp add: initialServer_def mapKeys_def)

lemma run_snoc: "run (evs @ [ev]) = handle (run evs) ev"
  by (simp add: run_def)

lemma count_list_distinct: "distinct xs \<Longrightarrow> x \<in> set xs \<Longrightarrow> count_list xs x = 1"
  by (induction xs) (auto simp: count_list_0_iff)

text \<open>
  Claim C8. After any trace of socket events the registry lists every user id at most
  once. When the same user connects twice in a row, the second time on another socket,
  the user is listed exactly once and the registry entry carries the second socket's id.
  A disconnect removes the user's entry.
\<close>

theorem registry_one_record_per_user:
  "distinct (listOnline (run evs))
   \<and> (sock_userId s1 = sock_userId s2 \<longrightarrow>
        count_list (listOnline (run (evs @ [Connection t1 s1, Connection t2 s2]))) (sock_userId s1) = 1
        \<and> map_option socketId
             (mapGet (onlineUsers (run (evs @ [Connection t1 s1, Connection t2 s2]))) (sock_userId s1))
           = Some (sock_id s2))
   \<and> sock_userId s \<notin> set (listOnline (run (evs @ [Disconnect s])))"
proof (intro conjI impI)
  show "distinct (listOnline (run evs))" by (rule run_distinct)
next
  assume same: "sock_userId s1 = sock_userId s2"
  let ?st = "run (evs @ [Connection t1 s1, Connection t2 s2])"
  have st: "?st = fst (onConnection t2 s2 (run (evs @ [Connection t1 s1])))"
    using run_snoc [of "evs @ [Connection t1 s1]" "Connection t2 s2"] by simp
  have mem: "sock_userId s1 \<in> set (listOnline ?st)"
    unfolding st using same
    by (simp add: onConnection_def Let_def listOnline_def mapKeys_def mapSet_keys)
  show "count_list (listOnline ?st) (sock_userId s1) = 1"
    using run_distinct [of "evs @ [Connection t1 s1, Connection t2 s2]"] mem
    by (rule count_list_distinct)
  show "map_option socketId (mapGet (onlineUsers ?st) (sock_userId s1)) = Some (sock_id s2)"
    unfolding st using same
    by (simp add: onConnection_def Let_def mapGet_mapSet)
next
  have "run (evs @ [Disconnect s]) = fst (onDisconnect s (run evs))"
    using run_snoc [of evs "Disconnect s"] by simp
  then show "sock_userId s \<notin> set (listOnline (run (evs @ [Disconnect s])))"
    by (simp add: onDisconnect_def Let_def listOnline_def mapDelete_keys)
qed

theorem registry_one_record_per_user_witness:
  "sock_userId sockA = sock_userId sockA'
   \<and> listOnline (run [Connection 10 sockA, Connection 20 sockA']) = [aliceId]
   \<and> count_list (listOnline (run [Connection 10 sockA, Connection 20 sockA'])) aliceId = 1
   \<and> map_option socketId
        (mapGet (onlineUsers (run [Connection 10 sockA, Connection 20 sockA'])) aliceId) = Some ''s2''
   \<and> aliceId \<notin> set (listOnline (run [Connection 10 sockA, Disconnect sockA]))"
  using registry_one_record_per_user [of "[]" sockA sockA' 10 20 sockA]
  by (simp add: sockA_def sockA'_def run_def initialServer_def onConnection_def onDisconnect_def
        Let_def listOnline_def mapKeys_def mapDelete_def mapGet_def ioEmit_def)

section \<open>Properties of the delivery router\<close>

text \<open>
  Claim C9. For a \<open>send_message\<close> payload that names its recipient, the handler writes a
  \<open>message_sent\<close> acknowledgment with the message id, the recipient id and the server's
  time to the sending socket. When no connected socket is in the recipient's room, the
  acknowledgment is the only thing emitted, and for a payload that carries its sender
  the handler raises nothing.
\<close>

theorem send_message_ack:
  assumes "message = Some m" and "msg_recipient m = Some r" and "party_id r = Some rid"
    and "rid \<noteq> []"
  shows "(let (st', out, exn) = onSendMessage now sock message st;
              ack = (sock_id sock, MessageSent \<lparr>ack_messageId = msg_id m, ack_recipientId = rid,
                                               ack_timestamp = now\<rparr>)
          in ack \<in> set out
             \<and> ((\<forall>s \<in> set (sockets st). rid \<notin> set (sock_rooms s)) \<longrightarrow> out = [ack])
             \<and> (msg_sender m \<noteq> None \<longrightarrow> exn = None))"
  using assms
  by (auto simp: onSendMessage_def Let_def truthy_def ioToEmit_def filter_empty_conv
           split: option.splits)

theorem send_message_ack_witness:
  "snd (onSendMessage 30 sockA (Some helloEvent) (run [Connection 10 sockA]))
     = ([(''s1'', MessageSent \<lparr>ack_messageId = Some msgId1, ack_recipientId = bobId,
                               ack_timestamp = 30\<rparr>)], None)
   \<and> filter (\<lambda>s. bobId \<in> set (sock_rooms s)) (sockets (run [Connection 10 sockA])) = []"
  using send_message_ack [of "Some helloEvent" helloEvent
      "\<lparr>party_id = Some bobId, party_fullName = Some ''Bob''\<rparr>" bobId 30 sockA
      "run [Connection 10 sockA]"]
  by (simp add: helloEvent_def sockA_def run_def initialServer_def onConnection_def
        onSendMessage_def Let_def truthy_def ioToEmit_def mapGet_def)

section \<open>Properties of message store access\<close>

lemma findById_Some: "findById us i = Some u \<Longrightarrow> u \<in> set us \<and> uid u = i"
  by (auto simp: findById_def find_Some_iff)

lemma findById_distinct:
  "distinct (map uid us) \<Longrightarrow> u \<in> set us \<Longrightarrow> findById us (uid u) = Some u"
proof (induction us)
  case Nil
  then show ?case by simp
next
  case (Cons a us)
  show ?case
  proof (cases "u = a")
    case True
    then show ?thesis by (simp add: findById_def)
  next
    case False
    with Cons.prems have "u \<in> set us" by simp
    with Cons.prems have "uid a \<noteq> uid u" by auto
    with Cons False \<open>u \<in> set us\<close> show ?thesis by (simp add: findById_def)
  qed
qed


lemma markAllRead_messages:
  "messages (fst (markAllRead s r db)) =
     map (\<lambda>m. if sender m = s \<and> recipient m = r then m\<lparr>read := True\<rparr> else m) (messages db)"
  by (auto simp: markAllRead_def unreadFrom_def)

lemma markAllRead_read:
  assumes "m \<in> set (messages (fst (markAllRead s r db)))" and "sender m = s" and "recipient m = r"
  shows "read m"
proof -
  from assms(1) obtain m0 where m0: "m0 \<in> set (messages db)"
    and m: "m = (if sender m0 = s \<and> recipient m0 = r then m0\<lparr>read := True\<rparr> else m0)"
    unfolding markAllRead_messages by auto
  show ?thesis
  proof (cases "sender m0 = s \<and> recipient m0 = r")
    case True
    with m show ?thesis by simp
  next
    case False
    with m have "m = m0" by simp
    with False assms show ?thesis by simp
  qed
qed

lemma getConversation_found:
  "findByIdCast castable (users db) b = Inr (Some ub) \<Longrightarrow>
   getConversation castable a b db =
     (Inr (200, map (populate (users db)) (sortCreatedAsc (filter (between a b) (messages db)))),
      fst (markAllRead b a db))"
  by (simp add: getConversation_def Let_def)

lemma p_createdAt_populate: "map p_createdAt (map (populate us) ms) = map createdAt ms"
  by (simp add: populate_def comp_def)

text \<open>
  Claim C1, as the code has it. When the other user \<open>b\<close> exists, \<open>getConversation a b\<close>
  answers with the messages between \<open>a\<close> and \<open>b\<close> in either direction, each populated
  from the document as it was stored before the call (its \<open>read\<close> flag included), in
  ascending order of creation time; in the collection afterwards every message from \<open>b\<close>
  to \<open>a\<close> is read and nothing else has changed.
\<close>

theorem getConversation_history:
  assumes "findByIdCast castable (users db) b = Inr (Some ub)"
  shows "\<exists>found. fst (getConversation castable a b db) = Inr (200, found)
           \<and> mset found = image_mset (populate (users db))
                             (filter_mset (between a b) (mset (messages db)))
           \<and> sorted (map p_createdAt found)
           \<and> messages (snd (getConversation castable a b db)) =
               map (\<lambda>m. if sender m = b \<and> recipient m = a then m\<lparr>read := True\<rparr> else m)
                 (messages db)
           \<and> (\<forall>m \<in> set (messages (snd (getConversation castable a b db))).
                 sender m = b \<and> recipient m = a \<longrightarrow> read m)"
proof (intro exI conjI ballI impI)
  show "fst (getConversation castable a b db)
          = Inr (200, map (populate (users db)) (sortCreatedAsc (filter (between a b) (messages db))))"
    by (simp add: getConversation_found [OF assms])
  show "mset (map (populate (users db)) (sortCreatedAsc (filter (between a b) (messages db))))
          = image_mset (populate (users db)) (filter_mset (between a b) (mset (messages db)))"
    by (simp add: sortCreatedAsc_def)
  show "sorted (map p_createdAt
          (map (populate (users db)) (sortCreatedAsc (filter (between a b) (messages db)))))"
    unfolding p_createdAt_populate by (simp add: sortCreatedAsc_def)
  show "messages (snd (getConversation castable a b db)) =
          map (\<lambda>m. if sender m = b \<and> recipient m = a then m\<lparr>read := True\<rparr> else m) (messages db)"
    by (simp add: getConversation_found [OF assms] markAllRead_messages)
next
  fix m
  assume "m \<in> set (messages (snd (getConversation castable a b db)))"
    and "sender m = b \<and> recipient m = a"
  then show "read m"
    using markAllRead_read [of m b a db] by (simp add: getConversation_found [OF assms])
qed

lemma isObjectIdString_examples:
  "isObjectIdString aliceId" "isObjectIdString bobId" "isObjectIdString unknownId"
  "\<not> isObjectIdString ''zz''"
  by (simp_all add: isObjectIdString_def isHexDigit_def)

lemma exampleDb_lookup_alice:
  "findByIdCast isObjectIdString (users exampleDb) aliceId = Inr (Some alice)"
  by (simp add: findByIdCast_def isObjectIdString_examples exampleDb_def findById_def alice_def)

lemma exampleDb_lookup_bob:
  "findByIdCast isObjectIdString (users exampleDb) bobId = Inr (Some bob)"
  by (simp add: findByIdCast_def isObjectIdString_examples exampleDb_def findById_def alice_def
        bob_def)


lemma exampleDb_findById_b: "findById (users exampleDb) bobId = Some bob"
  by (simp add: exampleDb_def findById_def alice_def bob_def)

theorem getConversation_history_witness:
  "findByIdCast isObjectIdString (users exampleDb) aliceId = Inr (Some alice)
   \<and> (\<exists>found. fst (getConversation isObjectIdString bobId aliceId exampleDb) = Inr (200, found)
         \<and> map p_read found = [False]
         \<and> map read (messages (snd (getConversation isObjectIdString bobId aliceId exampleDb)))
             = [True])"
proof -
  from getConversation_history [OF exampleDb_lookup_alice, of bobId]
  obtain found where
    f: "fst (getConversation isObjectIdString bobId aliceId exampleDb) = Inr (200, found)"
    and m: "messages (snd (getConversation isObjectIdString bobId aliceId exampleDb)) =
              map (\<lambda>m. if sender m = aliceId \<and> recipient m = bobId then m\<lparr>read := True\<rparr> else m)
                (messages exampleDb)"
    by blast
  have "found = map (populate (users exampleDb))
                  (sortCreatedAsc (filter (between bobId aliceId) (messages exampleDb)))"
    using f unfolding getConversation_found [OF exampleDb_lookup_alice] by simp
  then have r: "map p_read found = [False]"
    by (simp add: sortCreatedAsc_def exampleDb_def hello_def between_def populate_def)
  have w: "map read (messages (snd (getConversation isObjectIdString bobId aliceId exampleDb)))
             = [True]"
    unfolding m by (simp add: exampleDb_def hello_def)
  show ?thesis
  proof (intro conjI exI)
    show "findByIdCast isObjectIdString (users exampleDb) aliceId = Inr (Some alice)"
      by (rule exampleDb_lookup_alice)
    show "fst (getConversation isObjectIdString bobId aliceId exampleDb) = Inr (200, found)"
      by (rule f)
    show "map p_read found = [False]" by (rule r)
    show "map read (messages (snd (getConversation isObjectIdString bobId aliceId exampleDb)))
            = [True]" by (rule w)
  qed
qed

text \<open>
  The claim as the spec states it fails: Bob fetches his conversation with Alice, who
  had sent him one unread message. The stored flag flips, the returned entry still
  says \<open>read = False\<close>.
\<close>

theorem getConversation_returns_unread_counterexample:
  "getConversation isObjectIdString bobId aliceId exampleDb =
     (Inr (200, [\<lparr>p_id = msgId1, p_sender = Some (selectRef alice),
                  p_recipient = Some (selectRef bob), p_content = ''Hello'',
                  p_read = False, p_createdAt = 1000\<rparr>]),
      \<lparr>users = [alice, bob, mia, ada], messages = [hello\<lparr>read := True\<rparr>],
       updateManyCalls = 1\<rparr>)"
proof -
  have pa: "findById [alice, bob, mia, ada] aliceId = Some alice"
    by (simp add: findById_def alice_def)
  have pb: "findById [alice, bob, mia, ada] bobId = Some bob"
    by (simp add: findById_def alice_def bob_def)
  show ?thesis
    unfolding getConversation_found [OF exampleDb_lookup_alice]
    by (simp add: exampleDb_def hello_def sortCreatedAsc_def between_def populate_def pa pb
          markAllRead_def unreadFrom_def)
qed




lemma sendMessage_created:
  "rid \<noteq> [] \<Longrightarrow> c \<noteq> [] \<Longrightarrow> findByIdCast castable (users db) rid = Inr (Some rdoc) \<Longrightarrow>
   snd (sendMessage castable newId now u (Some rid) (Some c) db) =
     db\<lparr>messages := messages db @
        [\<lparr>mid = newId, sender = u, recipient = rid, content = c, read = False, createdAt = now\<rparr>]\<rparr>
   \<and> (\<exists>body. fst (sendMessage castable newId now u (Some rid) (Some c) db) = Inr (201, body))"
  by (simp add: sendMessage_def truthy_def Let_def)




lemma insort_key_snoc:
  "f y \<le> f x \<Longrightarrow> insort_key f y (zs @ [x]) = insort_key f y zs @ [x]"
  by (induction zs) auto

lemma sort_key_snoc:
  "\<forall>y \<in> set xs. f y \<le> f x \<Longrightarrow> sort_key f (xs @ [x]) = sort_key f xs @ [x]"
  by (induction xs) (auto simp: insort_key_snoc)

lemma p_content_populate:
  "filter (\<lambda>p. p_content p = c) (map (populate us) ms)
     = map (populate us) (filter (\<lambda>m. content m = c) ms)"
  by (induction ms) (auto simp: populate_def)

lemma sorted_map_le_last:
  "sorted (map f xs) \<Longrightarrow> x \<in> set xs \<Longrightarrow> f x \<le> f (last xs)"
  by (induction xs) auto

lemma length_filter_mset_eq:
  assumes "mset xs = mset ys"
  shows "length (filter P xs) = length (filter P ys)"
proof -
  have "mset (filter P xs) = mset (filter P ys)" using assms by simp
  then show ?thesis by (rule mset_eq_length)
qed

text \<open>
  Claim C7, as the code has it. After a successful \<open>sendMessage\<close> from \<open>s\<close> to an
  existing recipient, at a time strictly later than the creation time of every earlier
  message between the two, the conversation that \<open>s\<close> fetches is in ascending order of
  creation time, and in whatever order the database returns messages of equal creation
  time it ends with the message just created. The number of its entries with that
  content is one more than the number of earlier messages between the two users with
  the same content: exactly one when there was none.
\<close>

theorem send_then_history:
  assumes "rid \<noteq> []" and "c \<noteq> []"
    and "findByIdCast castable (users db) rid = Inr (Some rdoc)"
    and "\<forall>m \<in> set (messages db). between s rid m \<longrightarrow> createdAt m < now"
  shows "\<exists>found. fst (getConversation castable s rid
                        (snd (sendMessage castable newId now s (Some rid) (Some c) db)))
                    = Inr (200, found)
           \<and> sorted (map p_createdAt found)
           \<and> (\<forall>answer. mset answer = mset found \<and> sorted (map p_createdAt answer) \<longrightarrow>
                 answer \<noteq> []
                 \<and> last answer = populate (users db)
                       \<lparr>mid = newId, sender = s, recipient = rid, content = c, read = False,
                        createdAt = now\<rparr>
                 \<and> length (filter (\<lambda>p. p_content p = c) answer)
                     = Suc (length (filter (\<lambda>m. between s rid m \<and> content m = c) (messages db))))"
proof -
  let ?new = "\<lparr>mid = newId, sender = s, recipient = rid, content = c, read = False, createdAt = now\<rparr>"
  let ?db1 = "snd (sendMessage castable newId now s (Some rid) (Some c) db)"
  let ?old = "filter (between s rid) (messages db)"
  let ?us = "users db"
  have db1: "?db1 = db\<lparr>messages := messages db @ [?new]\<rparr>"
    using sendMessage_created [OF assms(1-3)] by blast
  have u: "findByIdCast castable (users ?db1) rid = Inr (Some rdoc)"
    unfolding db1 using assms(3) by simp
  have btw: "between s rid ?new" by (simp add: between_def)
  have older: "\<forall>m \<in> set ?old. createdAt m < now" using assms(4) by simp
  then have "\<forall>m \<in> set ?old. createdAt m \<le> createdAt ?new" by auto
  then have srt: "sortCreatedAsc (?old @ [?new]) = sortCreatedAsc ?old @ [?new]"
    unfolding sortCreatedAsc_def by (rule sort_key_snoc)
  have f: "filter (between s rid) (messages ?db1) = ?old @ [?new]"
    unfolding db1 using btw by simp
  let ?found = "map (populate ?us) (sortCreatedAsc ?old) @ [populate ?us ?new]"
  have res: "fst (getConversation castable s rid ?db1) = Inr (200, ?found)"
    unfolding getConversation_found [OF u] f srt by (simp add: db1)
  have "map p_createdAt ?found = map createdAt (sortCreatedAsc (?old @ [?new]))"
    unfolding srt by (simp add: populate_def comp_def)
  then have sorted: "sorted (map p_createdAt ?found)"
    by (simp add: sortCreatedAsc_def)
  have cnt: "length (filter (\<lambda>p. p_content p = c) ?found)
               = Suc (length (filter (\<lambda>m. between s rid m \<and> content m = c) (messages db)))"
    by (simp add: p_content_populate sortCreatedAsc_def filter_sort populate_def)
  have elems: "p = populate ?us ?new \<or> p_createdAt p < now" if "p \<in> set ?found" for p
  proof (cases "p = populate ?us ?new")
    case True
    then show ?thesis by simp
  next
    case False
    with that obtain m where "m \<in> set ?old" and "p = populate ?us m"
      by (auto simp: sortCreatedAsc_def)
    with older show ?thesis by (simp add: populate_def)
  qed
  have every: "answer \<noteq> []
         \<and> last answer = populate ?us ?new
         \<and> length (filter (\<lambda>p. p_content p = c) answer)
             = Suc (length (filter (\<lambda>m. between s rid m \<and> content m = c) (messages db)))"
    if a: "mset answer = mset ?found \<and> sorted (map p_createdAt answer)" for answer
  proof -
    from a have m: "mset answer = mset ?found" and so: "sorted (map p_createdAt answer)"
      by simp_all
    from m have st: "set answer = set ?found" by (rule mset_eq_setD)
    then have new_in: "populate ?us ?new \<in> set answer" by simp
    then have ne: "answer \<noteq> []" by auto
    then have "last answer \<in> set answer" by simp
    then have "last answer \<in> set ?found" using st by simp
    then have alt: "last answer = populate ?us ?new \<or> p_createdAt (last answer) < now"
      by (rule elems)
    have "p_createdAt (populate ?us ?new) \<le> p_createdAt (last answer)"
      using so new_in by (rule sorted_map_le_last)
    then have "now \<le> p_createdAt (last answer)" by (simp add: populate_def)
    with alt have l: "last answer = populate ?us ?new" by auto
    have "length (filter (\<lambda>p. p_content p = c) answer)
            = length (filter (\<lambda>p. p_content p = c) ?found)"
      using m by (rule length_filter_mset_eq)
    with cnt ne l show ?thesis by simp
  qed
  show ?thesis
  proof (intro exI conjI allI impI)
    show "fst (getConversation castable s rid ?db1) = Inr (200, ?found)" by (rule res)
    show "sorted (map p_createdAt ?found)" by (rule sorted)
  next
    fix answer
    assume a: "mset answer = mset ?found \<and> sorted (map p_createdAt answer)"
    from every [OF a] show "answer \<noteq> []" by (rule conjunct1)
    from every [OF a] show "last answer = populate ?us ?new"
      by (elim conjE)
    from every [OF a] show "length (filter (\<lambda>p. p_content p = c) answer)
             = Suc (length (filter (\<lambda>m. between s rid m \<and> content m = c) (messages db)))"
      by (elim conjE)
  qed
qed

theorem send_then_history_witness:
  "findByIdCast isObjectIdString (users exampleDb) aliceId = Inr (Some alice)
   \<and> map createdAt (filter (between bobId aliceId) (messages exampleDb)) = [1000]
   \<and> (\<exists>found. fst (getConversation isObjectIdString bobId aliceId
                      (snd (sendMessage isObjectIdString msgId2 2000 bobId (Some aliceId)
                              (Some ''Hi'') exampleDb)))
                  = Inr (200, found)
          \<and> sorted (map p_createdAt found)
          \<and> p_content (last found) = ''Hi''
          \<and> length (filter (\<lambda>p. p_content p = ''Hi'') found) = 1)"
proof -
  have h1: "aliceId \<noteq> []" and h2: "''Hi'' \<noteq> []" by simp_all
  have h4: "\<forall>m \<in> set (messages exampleDb). between bobId aliceId m \<longrightarrow> createdAt m < 2000"
    by (simp add: exampleDb_def hello_def)
  from send_then_history [OF h1 h2 exampleDb_lookup_alice h4, where newId = msgId2]
  obtain found where
    f: "fst (getConversation isObjectIdString bobId aliceId
              (snd (sendMessage isObjectIdString msgId2 2000 bobId (Some aliceId)
                      (Some ''Hi'') exampleDb)))
          = Inr (200, found)"
    and s: "sorted (map p_createdAt found)"
    and e: "\<forall>answer. mset answer = mset found \<and> sorted (map p_createdAt answer) \<longrightarrow>
              answer \<noteq> []
              \<and> last answer = populate (users exampleDb)
                    \<lparr>mid = msgId2, sender = bobId, recipient = aliceId, content = ''Hi'',
                     read = False, createdAt = 2000\<rparr>
              \<and> length (filter (\<lambda>p. p_content p = ''Hi'') answer)
                  = Suc (length (filter (\<lambda>m. between bobId aliceId m \<and> content m = ''Hi'')
                                   (messages exampleDb)))"
    by blast
  from e s have l: "last found = populate (users exampleDb)
                    \<lparr>mid = msgId2, sender = bobId, recipient = aliceId, content = ''Hi'',
                     read = False, createdAt = 2000\<rparr>"
    and n: "length (filter (\<lambda>p. p_content p = ''Hi'') found)
              = Suc (length (filter (\<lambda>m. between bobId aliceId m \<and> content m = ''Hi'')
                               (messages exampleDb)))"
    by blast+
  have l': "p_content (last found) = ''Hi''" unfolding l by (simp add: populate_def)
  have n': "length (filter (\<lambda>p. p_content p = ''Hi'') found) = 1"
    unfolding n by (simp add: exampleDb_def hello_def)
  have t: "map createdAt (filter (between bobId aliceId) (messages exampleDb)) = [1000]"
    by (simp add: exampleDb_def hello_def between_def)
  show ?thesis
  proof (intro conjI exI)
    show "findByIdCast isObjectIdString (users exampleDb) aliceId = Inr (Some alice)"
      by (rule exampleDb_lookup_alice)
    show "map createdAt (filter (between bobId aliceId) (messages exampleDb)) = [1000]"
      by (rule t)
    show "fst (getConversation isObjectIdString bobId aliceId
              (snd (sendMessage isObjectIdString msgId2 2000 bobId (Some aliceId)
                      (Some ''Hi'') exampleDb)))
          = Inr (200, found)" by (rule f)
    show "sorted (map p_createdAt found)" by (rule s)
    show "p_content (last found) = ''Hi''" by (rule l')
    show "length (filter (\<lambda>p. p_content p = ''Hi'') found) = 1" by (rule n')
  qed
qed

text \<open>
  The claim as the spec states it fails when the same text is sent a second time: Alice
  had already sent ``Hello'' to Bob, sends it again, and her conversation with Bob now
  holds two messages with that content.
\<close>

theorem send_same_content_twice_counterexample:
  "fst (getConversation isObjectIdString aliceId bobId
          (snd (sendMessage isObjectIdString msgId2 2000 aliceId (Some bobId) (Some ''Hello'')
                  exampleDb)))
     = Inr (200,
         [\<lparr>p_id = msgId1, p_sender = Some (selectRef alice), p_recipient = Some (selectRef bob),
           p_content = ''Hello'', p_read = False, p_createdAt = 1000\<rparr>,
          \<lparr>p_id = msgId2, p_sender = Some (selectRef alice), p_recipient = Some (selectRef bob),
           p_content = ''Hello'', p_read = False, p_createdAt = 2000\<rparr>])"
proof -
  have h1: "bobId \<noteq> []" and h2: "''Hello'' \<noteq> []" by simp_all
  have db1: "snd (sendMessage isObjectIdString msgId2 2000 aliceId (Some bobId) (Some ''Hello'')
                    exampleDb)
               = exampleDb\<lparr>messages := messages exampleDb @
                   [\<lparr>mid = msgId2, sender = aliceId, recipient = bobId, content = ''Hello'',
                     read = False, createdAt = 2000\<rparr>]\<rparr>"
    using sendMessage_created [OF h1 h2 exampleDb_lookup_bob] by blast
  have u: "findByIdCast isObjectIdString (users (exampleDb\<lparr>messages := messages exampleDb @
                   [\<lparr>mid = msgId2, sender = aliceId, recipient = bobId, content = ''Hello'',
                     read = False, createdAt = 2000\<rparr>]\<rparr>)) bobId = Inr (Some bob)"
    using exampleDb_lookup_bob by simp
  have pa: "findById [alice, bob, mia, ada] aliceId = Some alice"
    by (simp add: findById_def alice_def)
  have pb: "findById [alice, bob, mia, ada] bobId = Some bob"
    by (simp add: findById_def alice_def bob_def)
  show ?thesis
    unfolding db1 getConversation_found [OF u]
    by (simp add: exampleDb_def hello_def sortCreatedAsc_def between_def populate_def pa pb)
qed

lemma mapGet_mapSet_same: "mapGet (mapSet k v es) k = Some v"
  by (simp add: mapGet_mapSet)

lemma mapGet_filter_kept:
  "mapGet es k = Some v \<Longrightarrow> P (k, v) \<Longrightarrow> mapGet (filter P es) k = Some v"
  unfolding mapGet_def
proof (induction es)
  case Nil
  then show ?case by simp
next
  case (Cons e es)
  obtain k' v' where e: "e = (k', v')" by (cases e)
  show ?case
  proof (cases "k' = k")
    case True
    with Cons.prems e show ?thesis by simp
  next
    case False
    with Cons e show ?thesis by simp
  qed
qed

lemma markMessagesAsRead_throttled:
  "now - lastOperation cache (cacheKey r s) < 5000 \<Longrightarrow>
   markMessagesAsRead castable now r s cache db = (Inr (200, cachedReply), cache, db)"
  by (simp add: markMessagesAsRead_def)

lemma markMessagesAsRead_cache:
  assumes "\<not> now - lastOperation cache (cacheKey r s) < 5000"
  shows "lastOperation (fst (snd (markMessagesAsRead castable now r s cache db))) (cacheKey r s)
           = now"
proof -
  let ?k = "cacheKey r s"
  let ?cache' = "filter (\<lambda>(key, timestamp). \<not> now - timestamp > 60000) (mapSet ?k now cache)"
  have c: "fst (snd (markMessagesAsRead castable now r s cache db)) = ?cache'"
    using assms
    by (simp add: markMessagesAsRead_def Let_def split: option.splits sum.splits prod.splits)
  have "mapGet ?cache' ?k = Some now"
    by (rule mapGet_filter_kept) (simp_all add: mapGet_mapSet_same)
  then show ?thesis unfolding c by (simp add: lastOperation_def)
qed

lemma markMessagesAsRead_uncastable:
  "\<not> now - lastOperation cache (cacheKey r s) < 5000 \<Longrightarrow> \<not> castable s \<Longrightarrow>
   fst (markMessagesAsRead castable now r s cache db) = Inl (HttpError 500 ''CastError'')
   \<and> snd (snd (markMessagesAsRead castable now r s cache db)) = db"
  by (simp add: markMessagesAsRead_def Let_def findByIdCast_def)

lemma markMessagesAsRead_unknown_sender:
  "\<not> now - lastOperation cache (cacheKey r s) < 5000 \<Longrightarrow>
   findByIdCast castable (users db) s = Inr None \<Longrightarrow>
   fst (markMessagesAsRead castable now r s cache db) = Inl (HttpError 404 ''Sender not found'')
   \<and> snd (snd (markMessagesAsRead castable now r s cache db)) = db"
  by (simp add: markMessagesAsRead_def Let_def)

lemma markMessagesAsRead_known_sender:
  "\<not> now - lastOperation cache (cacheKey r s) < 5000 \<Longrightarrow>
   findByIdCast castable (users db) s = Inr (Some sdoc) \<Longrightarrow>
   fst (markMessagesAsRead castable now r s cache db)
     = Inr (200, \<lparr>rr_message = ''Messages marked as read'',
                  rr_count = length (filter (unreadFrom s r) (messages db)), rr_cached = False\<rparr>)
   \<and> snd (snd (markMessagesAsRead castable now r s cache db)) = fst (markAllRead s r db)"
  by (simp add: markMessagesAsRead_def Let_def markAllRead_def)

lemma markMessagesAsRead_calls:
  "updateManyCalls (snd (snd (markMessagesAsRead castable now r s cache db)))
     \<le> Suc (updateManyCalls db)"
proof (cases "now - lastOperation cache (cacheKey r s) < 5000")
  case True
  then show ?thesis by (simp add: markMessagesAsRead_throttled)
next
  case False
  show ?thesis
  proof (cases "findByIdCast castable (users db) s")
    case (Inl e)
    then have "\<not> castable s" by (simp add: findByIdCast_def split: if_splits)
    with False show ?thesis
      using markMessagesAsRead_uncastable [where castable = castable and s = s, of now cache r db]
      by simp
  next
    case (Inr found)
    show ?thesis
    proof (cases found)
      case None
      with False Inr show ?thesis by (simp add: markMessagesAsRead_unknown_sender)
    next
      case (Some sdoc)
      with False Inr show ?thesis
        by (simp add: markMessagesAsRead_known_sender markAllRead_def)
    qed
  qed
qed

lemma markAllRead_nothing_unread:
  "filter (unreadFrom s r) (messages db) = [] \<Longrightarrow> messages (fst (markAllRead s r db)) = messages db"
  by (simp add: markAllRead_def filter_empty_conv map_idI)

text \<open>
  Claim C6. Two calls of \<open>markMessagesAsRead\<close> for the same pair less than 5000 ms apart
  issue at most one update between them; when the first was processed, the second is
  answered from the throttle with success, \<open>cached: true\<close> and count 0, and touches
  neither the cache nor the database. A call that is not throttled, for a sender that
  exists and has no unread message left for the recipient, succeeds with count 0 and
  leaves every message as it was. Every throttled call is answered with that cached
  success and changes nothing.
\<close>

theorem markMessagesAsRead_idempotent:
  "(t2 - t1 < 5000 \<longrightarrow>
      (let (res1, cache1, db1) = markMessagesAsRead castable t1 r s cache db;
           (res2, cache2, db2) = markMessagesAsRead castable t2 r s cache1 db1
       in updateManyCalls db2 \<le> Suc (updateManyCalls db)
          \<and> (\<not> t1 - lastOperation cache (cacheKey r s) < 5000 \<longrightarrow>
               res2 = Inr (200, cachedReply) \<and> rr_cached cachedReply \<and> rr_count cachedReply = 0
               \<and> cache2 = cache1 \<and> db2 = db1)))
   \<and> (\<not> now - lastOperation cache (cacheKey r s) < 5000
        \<and> findByIdCast castable (users db) s = Inr (Some sdoc)
        \<and> filter (unreadFrom s r) (messages db) = [] \<longrightarrow>
        fst (markMessagesAsRead castable now r s cache db)
          = Inr (200, \<lparr>rr_message = ''Messages marked as read'', rr_count = 0, rr_cached = False\<rparr>)
        \<and> messages (snd (snd (markMessagesAsRead castable now r s cache db))) = messages db)
   \<and> (now - lastOperation cache (cacheKey r s) < 5000 \<longrightarrow>
        markMessagesAsRead castable now r s cache db = (Inr (200, cachedReply), cache, db))"
proof (intro conjI impI)
  assume w: "t2 - t1 < 5000"
  obtain res1 cache1 db1
    where m1: "markMessagesAsRead castable t1 r s cache db = (res1, cache1, db1)"
    by (cases "markMessagesAsRead castable t1 r s cache db") auto
  obtain res2 cache2 db2
    where m2: "markMessagesAsRead castable t2 r s cache1 db1 = (res2, cache2, db2)"
    by (cases "markMessagesAsRead castable t2 r s cache1 db1") auto
  have calls: "updateManyCalls db2 \<le> Suc (updateManyCalls db)"
  proof (cases "t1 - lastOperation cache (cacheKey r s) < 5000")
    case True
    then have "db1 = db" using m1 by (simp add: markMessagesAsRead_throttled)
    then show ?thesis using markMessagesAsRead_calls [of castable t2 r s cache1 db1] m2 by simp
  next
    case False
    have "lastOperation cache1 (cacheKey r s) = t1"
      using markMessagesAsRead_cache [OF False, of castable db] m1 by simp
    then have "t2 - lastOperation cache1 (cacheKey r s) < 5000" using w by simp
    then have "db2 = db1" using m2 by (simp add: markMessagesAsRead_throttled)
    then show ?thesis using markMessagesAsRead_calls [of castable t1 r s cache db] m1 by simp
  qed
  have second: "res2 = Inr (200, cachedReply) \<and> rr_cached cachedReply \<and> rr_count cachedReply = 0
                 \<and> cache2 = cache1 \<and> db2 = db1"
    if p: "\<not> t1 - lastOperation cache (cacheKey r s) < 5000"
  proof -
    have "lastOperation cache1 (cacheKey r s) = t1"
      using markMessagesAsRead_cache [OF p, of castable db] m1 by simp
    then have "t2 - lastOperation cache1 (cacheKey r s) < 5000" using w by simp
    then show ?thesis using m2 by (simp add: markMessagesAsRead_throttled cachedReply_def)
  qed
  show "let (res1, cache1, db1) = markMessagesAsRead castable t1 r s cache db;
            (res2, cache2, db2) = markMessagesAsRead castable t2 r s cache1 db1
        in updateManyCalls db2 \<le> Suc (updateManyCalls db)
           \<and> (\<not> t1 - lastOperation cache (cacheKey r s) < 5000 \<longrightarrow>
                res2 = Inr (200, cachedReply) \<and> rr_cached cachedReply \<and> rr_count cachedReply = 0
                \<and> cache2 = cache1 \<and> db2 = db1)"
    unfolding m1 Let_def prod.case m2 using calls second by blast
next
  assume a: "\<not> now - lastOperation cache (cacheKey r s) < 5000
        \<and> findByIdCast castable (users db) s = Inr (Some sdoc)
        \<and> filter (unreadFrom s r) (messages db) = []"
  then show "fst (markMessagesAsRead castable now r s cache db)
          = Inr (200, \<lparr>rr_message = ''Messages marked as read'', rr_count = 0, rr_cached = False\<rparr>)"
    using markMessagesAsRead_known_sender [of now cache r s castable db sdoc] by simp
  from a show "messages (snd (snd (markMessagesAsRead castable now r s cache db))) = messages db"
    using markMessagesAsRead_known_sender [of now cache r s castable db sdoc]
      markAllRead_nothing_unread [of s r db] by simp
next
  assume "now - lastOperation cache (cacheKey r s) < 5000"
  then show "markMessagesAsRead castable now r s cache db = (Inr (200, cachedReply), cache, db)"
    by (rule markMessagesAsRead_throttled)
qed


lemma exampleDb_first_mark:
  "markMessagesAsRead isObjectIdString 100000 bobId aliceId [] exampleDb =
     (Inr (200, \<lparr>rr_message = ''Messages marked as read'', rr_count = 1, rr_cached = False\<rparr>),
      [(cacheKey bobId aliceId, 100000)],
      \<lparr>users = [alice, bob, mia, ada], messages = [hello\<lparr>read := True\<rparr>], updateManyCalls = 1\<rparr>)"
proof -
  have n: "\<not> (100000 :: int) - lastOperation [] (cacheKey bobId aliceId) < 5000"
    by (simp add: lastOperation_def mapGet_def)
  have "filter (\<lambda>(key, timestamp). \<not> (100000 :: int) - timestamp > 60000)
          (mapSet (cacheKey bobId aliceId) 100000 []) = [(cacheKey bobId aliceId, 100000)]"
    by simp
  then show ?thesis
    using n exampleDb_lookup_alice
    by (simp add: markMessagesAsRead_def Let_def markAllRead_def unreadFrom_def exampleDb_def
          hello_def)
qed

theorem markMessagesAsRead_idempotent_witness:
  "(102000 :: int) - 100000 < 5000
   \<and> \<not> (100000 :: int) - lastOperation [] (cacheKey bobId aliceId) < 5000
   \<and> markMessagesAsRead isObjectIdString 102000 bobId aliceId [(cacheKey bobId aliceId, 100000)]
        \<lparr>users = [alice, bob, mia, ada], messages = [hello\<lparr>read := True\<rparr>], updateManyCalls = 1\<rparr>
       = (Inr (200, cachedReply), [(cacheKey bobId aliceId, 100000)],
          \<lparr>users = [alice, bob, mia, ada], messages = [hello\<lparr>read := True\<rparr>], updateManyCalls = 1\<rparr>)
   \<and> \<not> (200000 :: int) - lastOperation [(cacheKey bobId aliceId, 100000)] (cacheKey bobId aliceId)
         < 5000
   \<and> findByIdCast isObjectIdString [alice, bob, mia, ada] aliceId = Inr (Some alice)
   \<and> filter (unreadFrom aliceId bobId) [hello\<lparr>read := True\<rparr>] = []
   \<and> fst (markMessagesAsRead isObjectIdString 200000 bobId aliceId
             [(cacheKey bobId aliceId, 100000)]
        \<lparr>users = [alice, bob, mia, ada], messages = [hello\<lparr>read := True\<rparr>], updateManyCalls = 1\<rparr>)
       = Inr (200, \<lparr>rr_message = ''Messages marked as read'', rr_count = 0, rr_cached = False\<rparr>)"
proof -
  let ?db1 = "\<lparr>users = [alice, bob, mia, ada], messages = [hello\<lparr>read := True\<rparr>],
               updateManyCalls = 1\<rparr>"
  let ?c1 = "[(cacheKey bobId aliceId, 100000 :: int)]"
  have a: "(102000 :: int) - 100000 < 5000" by simp
  have b: "\<not> (100000 :: int) - lastOperation [] (cacheKey bobId aliceId) < 5000"
    by (simp add: lastOperation_def mapGet_def)
  have c: "\<not> (200000 :: int) - lastOperation ?c1 (cacheKey bobId aliceId) < 5000"
    by (simp add: lastOperation_def mapGet_def)
  have d: "findByIdCast isObjectIdString [alice, bob, mia, ada] aliceId = Inr (Some alice)"
    using exampleDb_lookup_alice by (simp add: exampleDb_def)
  have e: "filter (unreadFrom aliceId bobId) [hello\<lparr>read := True\<rparr>] = []"
    by (simp add: unreadFrom_def)
  note first = markMessagesAsRead_idempotent
    [where ?t2.0 = 102000 and ?t1.0 = 100000 and castable = isObjectIdString and r = bobId
       and s = aliceId and cache = "[]" and db = exampleDb,
     THEN conjunct1, rule_format, OF a]
  note again = markMessagesAsRead_idempotent
    [where castable = isObjectIdString and r = bobId and s = aliceId and cache = ?c1
       and db = ?db1 and now = 200000 and sdoc = alice,
     THEN conjunct2, THEN conjunct1, rule_format]
  have f: "markMessagesAsRead isObjectIdString 102000 bobId aliceId ?c1 ?db1
             = (Inr (200, cachedReply), ?c1, ?db1)"
    using first b unfolding exampleDb_first_mark Let_def prod.case
    by (cases "markMessagesAsRead isObjectIdString 102000 bobId aliceId ?c1 ?db1") simp
  have g: "fst (markMessagesAsRead isObjectIdString 200000 bobId aliceId ?c1 ?db1)
       = Inr (200, \<lparr>rr_message = ''Messages marked as read'', rr_count = 0, rr_cached = False\<rparr>)"
    using again c d e by simp
  show ?thesis
    using a b f c d e g by (intro conjI)
qed




section \<open>Properties of contact resolution\<close>

lemma set_setAdd: "set (setAdd s x) = insert x (set s)"
  by (auto simp: setAdd_def)

lemma messageUserIds_fold:
  "set (foldl (\<lambda>s m. let s1 = (if sender m \<noteq> cur then setAdd s (sender m) else s)
                       in if recipient m \<noteq> cur then setAdd s1 (recipient m) else s1) acc ms)
     = set acc \<union> {x. x \<noteq> cur \<and> (\<exists>m \<in> set ms. sender m = x \<or> recipient m = x)}"
proof (induction ms arbitrary: acc)
  case Nil
  then show ?case by simp
next
  case (Cons m ms)
  show ?case
    unfolding foldl_Cons Cons.IH
    by (auto simp: Let_def set_setAdd)
qed

lemma set_messageUserIds:
  "set (messageUserIds cur ms) = {x. x \<noteq> cur \<and> (\<exists>m \<in> set ms. sender m = x \<or> recipient m = x)}"
  unfolding messageUserIds_def messageUserIds_fold by simp

lemma set_contactsWithMessages:
  "set (contactsWithMessages db cu)
     = {p \<in> set (users db). uid p \<noteq> uid cu \<and> (\<exists>m \<in> set (messages db). between (uid cu) (uid p) m)}"
proof -
  let ?found = "sortCreatedDesc
                  (filter (\<lambda>m. sender m = uid cu \<or> recipient m = uid cu) (messages db))"
  let ?ids = "messageUserIds (uid cu) ?found"
  have ids: "set ?ids = {x. x \<noteq> uid cu \<and> (\<exists>m \<in> set (messages db). between (uid cu) x m)}"
    unfolding set_messageUserIds sortCreatedDesc_def
    by (auto simp: between_def)
  have "set (contactsWithMessages db cu) = {p \<in> set (users db). uid p \<in> set ?ids}"
  proof (cases "length ?ids > 0")
    case True
    then show ?thesis by (simp add: contactsWithMessages_def Let_def)
  next
    case False
    then have "?ids = []" by simp
    then show ?thesis by (simp add: contactsWithMessages_def Let_def)
  qed
  then show ?thesis unfolding ids by auto
qed

lemma distinct_contactsWithMessages:
  "distinct (map uid (users db)) \<Longrightarrow> distinct (map uid (contactsWithMessages db cu))"
  by (simp add: contactsWithMessages_def Let_def distinct_map_filter)

lemma mergeContacts_fold:
  "uid ` set (foldl (\<lambda>allContacts contact.
              if list_ex (\<lambda>c. uid c = uid contact) allContacts then allContacts
              else allContacts @ [contact]) acc cs) = uid ` set acc \<union> uid ` set cs
   \<and> (distinct (map uid acc) \<longrightarrow>
        distinct (map uid (foldl (\<lambda>allContacts contact.
              if list_ex (\<lambda>c. uid c = uid contact) allContacts then allContacts
              else allContacts @ [contact]) acc cs)))"
proof (induction cs arbitrary: acc)
  case Nil
  then show ?case by simp
next
  case (Cons c cs)
  show ?case
  proof (cases "list_ex (\<lambda>c'. uid c' = uid c) acc")
    case True
    then obtain c' where "c' \<in> set acc" and "uid c' = uid c" by (auto simp: list_ex_iff)
    then have "uid c \<in> uid ` set acc" by (metis imageI)
    then show ?thesis using Cons.IH [of acc] True by auto
  next
    case False
    then have "uid c \<notin> uid ` set acc" by (auto simp: list_ex_iff)
    then show ?thesis using Cons.IH [of "acc @ [c]"] False by auto
  qed
qed

lemma set_allContacts:
  "uid ` set (allContacts db cu)
     = uid ` set (contactsWithMessages db cu) \<union> uid ` set (roleContacts (users db) cu)"
  unfolding allContacts_def mergeContacts_def using mergeContacts_fold by blast

lemma distinct_allContacts:
  "distinct (map uid (users db)) \<Longrightarrow> distinct (map uid (allContacts db cu))"
  unfolding allContacts_def mergeContacts_def
  using mergeContacts_fold distinct_contactsWithMessages by blast

lemma mset_insertBy: "mset (insertBy cmp x ys) = add_mset x (mset ys)"
  by (induction ys) auto

lemma mset_arraySort: "mset (arraySort cmp xs) = mset xs"
  unfolding arraySort_def by (induction xs) (auto simp: mset_insertBy)

lemma cv_id_contactStats: "cv_id (contactStats rt now ms cu c) = uid c"
  by (simp add: contactStats_def Let_def)

lemma mset_resolve:
  assumes "findById (users db) u = Some cu"
  shows "mset (resolve rt now u db) = mset (map uid (allContacts db cu))"
proof -
  have "resolve rt now u db
          = map cv_id (arraySort (compareContacts rt)
              (map (contactStats rt now (messages db) cu) (allContacts db cu)))"
    using assms by (simp add: resolve_def getChatContacts_def Let_def)
  then have "mset (resolve rt now u db)
          = image_mset cv_id (mset (map (contactStats rt now (messages db) cu) (allContacts db cu)))"
    by (simp add: mset_arraySort)
  also have "\<dots> = mset (map uid (allContacts db cu))"
    by (simp add: cv_id_contactStats multiset.map_comp comp_def)
  finally show ?thesis .
qed

lemma set_resolve:
  assumes "findById (users db) u = Some cu"
  shows "set (resolve rt now u db)
           = uid ` set (contactsWithMessages db cu) \<union> uid ` set (roleContacts (users db) cu)"
proof -
  have "set (resolve rt now u db) = set (map uid (allContacts db cu))"
    using mset_resolve [OF assms] by (rule mset_eq_setD)
  then show ?thesis by (simp add: set_allContacts)
qed

lemma distinct_resolve:
  assumes "findById (users db) u = Some cu" and "distinct (map uid (users db))"
  shows "distinct (resolve rt now u db)"
  using mset_resolve [OF assms(1)] distinct_allContacts [OF assms(2)]
  by (metis mset_eq_imp_distinct_iff)

text \<open>
  Claim C3, as the code has it. For a requester \<open>u\<close> and every user \<open>p\<close> other than \<open>u\<close>
  with at least one message between the two, in either direction, the contact list of
  \<open>u\<close> contains \<open>p\<close>, whatever the role rule says. The ids of the list are exactly those
  of the prior partners together with those of the role-derived contacts, and no id
  occurs twice.
\<close>

theorem resolve_prior_partners:
  assumes "findById (users db) u = Some cu" and "distinct (map uid (users db))"
  shows "(\<forall>p \<in> set (users db).
            uid p \<noteq> u \<and> (\<exists>m \<in> set (messages db). between u (uid p) m) \<longrightarrow>
            uid p \<in> set (resolve rt now u db))
         \<and> set (resolve rt now u db)
             = {uid p | p. p \<in> set (users db) \<and> uid p \<noteq> u
                          \<and> (\<exists>m \<in> set (messages db). between u (uid p) m)}
               \<union> uid ` set (roleContacts (users db) cu)
         \<and> distinct (resolve rt now u db)"
proof -
  have u: "uid cu = u" using findById_Some [OF assms(1)] by simp
  have s: "set (resolve rt now u db)
             = {uid p | p. p \<in> set (users db) \<and> uid p \<noteq> u
                          \<and> (\<exists>m \<in> set (messages db). between u (uid p) m)}
               \<union> uid ` set (roleContacts (users db) cu)"
    unfolding set_resolve [OF assms(1)] set_contactsWithMessages u by auto
  have d: "distinct (resolve rt now u db)" by (rule distinct_resolve [OF assms])
  from s d show ?thesis by auto
qed

lemma exampleDb_distinct: "distinct (map uid (users exampleDb))"
  by (simp add: exampleDb_def alice_def bob_def mia_def ada_def)

theorem resolve_prior_partners_witness:
  "findById (users exampleDb) bobId = Some bob
   \<and> distinct (map uid (users exampleDb))
   \<and> alice \<in> set (users exampleDb) \<and> uid alice \<noteq> bobId
   \<and> hello \<in> set (messages exampleDb) \<and> between bobId (uid alice) hello
   \<and> role alice \<noteq> ''admin'' \<and> role alice \<noteq> ''mentor'' \<and> mentor bob = None
   \<and> aliceId \<in> set (resolve exampleRuntime 5000 bobId exampleDb)
   \<and> distinct (resolve exampleRuntime 5000 bobId exampleDb)"
proof -
  have a: "alice \<in> set (users exampleDb)" by (simp add: exampleDb_def)
  have b: "uid alice \<noteq> bobId" "uid alice = aliceId" by (simp_all add: alice_def)
  have c: "hello \<in> set (messages exampleDb)" by (simp add: exampleDb_def)
  have d: "between bobId (uid alice) hello" by (simp add: between_def hello_def alice_def)
  have e: "role alice \<noteq> ''admin''" "role alice \<noteq> ''mentor''" "mentor bob = None"
    by (simp_all add: alice_def bob_def)
  note t = resolve_prior_partners [OF exampleDb_findById_b exampleDb_distinct,
      of exampleRuntime 5000]
  have m: "\<exists>m \<in> set (messages exampleDb). between bobId (uid alice) m"
    using c d by (rule bexI [rotated])
  have "uid alice \<in> set (resolve exampleRuntime 5000 bobId exampleDb)"
    using t [THEN conjunct1, rule_format, of alice] a b(1) m by simp
  then have f: "aliceId \<in> set (resolve exampleRuntime 5000 bobId exampleDb)"
    unfolding b(2) .
  have g: "distinct (resolve exampleRuntime 5000 bobId exampleDb)"
    using t by (elim conjE)
  show ?thesis
    using exampleDb_findById_b exampleDb_distinct a b(1) c d e f g by (intro conjI)
qed

text \<open>
  The claim as the spec states it fails for \<open>p = u\<close>: Bob has sent a message to himself,
  so a message between Bob and Bob exists, and no role rule lists him; his contact list
  is empty.
\<close>

theorem resolve_self_message_counterexample:
  "bob \<in> set (users selfDb) \<and> memo \<in> set (messages selfDb)
   \<and> between bobId (uid bob) memo
   \<and> resolve exampleRuntime 5000 bobId selfDb = []"
  by (simp add: selfDb_def bob_def memo_def between_def resolve_def getChatContacts_def
        findById_def allContacts_def contactsWithMessages_def sortCreatedDesc_def
        messageUserIds_def roleContacts_def findByRole_def mergeContacts_def arraySort_def
        Let_def)

lemma roleContacts_user:
  assumes "role cu = ''user''"
  shows "set (roleContacts us cu) =
           (case mentor cu of None \<Rightarrow> {}
            | Some i \<Rightarrow> (case findById us i of None \<Rightarrow> {} | Some m \<Rightarrow> {m}))
           \<union> {x \<in> set us. role x = ''admin'' \<or> role x = ''mentor''}"
  using assms by (auto simp: roleContacts_def findByRole_def split: option.splits)

lemma roleContacts_mentor:
  assumes "role cu = ''mentor''"
  shows "set (roleContacts us cu) =
           {x \<in> set us. mentor x = Some (uid cu) \<or> role x = ''admin'' \<or> role x = ''user''}"
  using assms by (auto simp: roleContacts_def findByRole_def)

text \<open>
  Claim C4. With user ids unique in the collection: the contact list of a requester of
  role \<open>user\<close> whose assigned mentor \<open>M\<close> exists contains \<open>M\<close>, every admin and every
  mentor, whether or not any message was exchanged. The contact list of a mentor \<open>M\<close>
  contains every user \<open>U1\<close> whose mentor reference is \<open>M\<close>, and the contact list of such a
  mentee of role \<open>user\<close> contains \<open>M\<close>.
\<close>

theorem resolve_mentor_and_mentee:
  assumes "distinct (map uid (users db))"
  shows "(cu \<in> set (users db) \<and> role cu = ''user'' \<and> M \<in> set (users db)
            \<and> mentor cu = Some (uid M) \<longrightarrow>
            uid M \<in> set (resolve rt now (uid cu) db)
            \<and> (\<forall>x \<in> set (users db). role x = ''admin'' \<or> role x = ''mentor'' \<longrightarrow>
                  uid x \<in> set (resolve rt now (uid cu) db)))
         \<and> (M \<in> set (users db) \<and> role M = ''mentor'' \<and> U1 \<in> set (users db)
              \<and> mentor U1 = Some (uid M) \<longrightarrow>
              uid U1 \<in> set (resolve rt now (uid M) db)
              \<and> (role U1 = ''user'' \<longrightarrow> uid M \<in> set (resolve rt now (uid U1) db)))"
proof (intro conjI impI ballI)
  assume a: "cu \<in> set (users db) \<and> role cu = ''user'' \<and> M \<in> set (users db)
            \<and> mentor cu = Some (uid M)"
  then have f: "findById (users db) (uid cu) = Some cu"
    and g: "findById (users db) (uid M) = Some M"
    using findById_distinct [OF assms] by simp_all
  have "M \<in> set (roleContacts (users db) cu)"
    using a g by (simp add: roleContacts_user)
  then show "uid M \<in> set (resolve rt now (uid cu) db)"
    unfolding set_resolve [OF f] by simp
  fix x
  assume "x \<in> set (users db)" and "role x = ''admin'' \<or> role x = ''mentor''"
  then have "x \<in> set (roleContacts (users db) cu)"
    using a by (simp add: roleContacts_user)
  then show "uid x \<in> set (resolve rt now (uid cu) db)"
    unfolding set_resolve [OF f] by simp
next
  assume a: "M \<in> set (users db) \<and> role M = ''mentor'' \<and> U1 \<in> set (users db)
              \<and> mentor U1 = Some (uid M)"
  then have f: "findById (users db) (uid M) = Some M"
    and g: "findById (users db) (uid U1) = Some U1"
    using findById_distinct [OF assms] by simp_all
  have "U1 \<in> set (roleContacts (users db) M)"
    using a by (simp add: roleContacts_mentor)
  then show "uid U1 \<in> set (resolve rt now (uid M) db)"
    unfolding set_resolve [OF f] by simp
  assume "role U1 = ''user''"
  then have "M \<in> set (roleContacts (users db) U1)"
    using a f by (simp add: roleContacts_user)
  then show "uid M \<in> set (resolve rt now (uid U1) db)"
    unfolding set_resolve [OF g] by simp
qed

theorem resolve_mentor_and_mentee_witness:
  "distinct (map uid (users exampleDb))
   \<and> alice \<in> set (users exampleDb) \<and> role alice = ''user''
   \<and> mia \<in> set (users exampleDb) \<and> role mia = ''mentor'' \<and> mentor alice = Some (uid mia)
   \<and> ada \<in> set (users exampleDb) \<and> role ada = ''admin''
   \<and> filter (\<lambda>m. between aliceId miaId m) (messages exampleDb) = []
   \<and> miaId \<in> set (resolve exampleRuntime 5000 aliceId exampleDb)
   \<and> adaId \<in> set (resolve exampleRuntime 5000 aliceId exampleDb)
   \<and> aliceId \<in> set (resolve exampleRuntime 5000 miaId exampleDb)"
proof -
  have a: "alice \<in> set (users exampleDb)" "mia \<in> set (users exampleDb)"
    "ada \<in> set (users exampleDb)"
    by (simp_all add: exampleDb_def)
  have b: "role alice = ''user''" "role mia = ''mentor''" "mentor alice = Some (uid mia)"
    "role ada = ''admin''"
    by (simp_all add: alice_def mia_def ada_def)
  have i: "uid alice = aliceId" "uid mia = miaId" "uid ada = adaId"
    by (simp_all add: alice_def mia_def ada_def)
  have n: "filter (\<lambda>m. between aliceId miaId m) (messages exampleDb) = []"
    by (simp add: exampleDb_def hello_def between_def)
  note t = resolve_mentor_and_mentee [OF exampleDb_distinct, of alice mia exampleRuntime 5000 alice]
  have 1: "uid mia \<in> set (resolve exampleRuntime 5000 (uid alice) exampleDb)"
    using t [THEN conjunct1] a b by simp
  have 2: "uid ada \<in> set (resolve exampleRuntime 5000 (uid alice) exampleDb)"
    using t [THEN conjunct1] a b by simp
  have 3: "uid alice \<in> set (resolve exampleRuntime 5000 (uid mia) exampleDb)"
    using t [THEN conjunct2] a b by simp
  show ?thesis
    using exampleDb_distinct a b n 1 2 3 unfolding i by (intro conjI)
qed

section \<open>Properties of the contact order\<close>

lemma set_insertBy: "set (insertBy cmp x ys) = insert x (set ys)"
  by (induction ys) auto

lemma sorted_insertBy:
  assumes "consistentComparator cmp"
  shows "sorted_wrt (\<lambda>a b. cmp a b \<le> 0) ys \<Longrightarrow> sorted_wrt (\<lambda>a b. cmp a b \<le> 0) (insertBy cmp x ys)"
proof (induction ys)
  case Nil
  then show ?case by simp
next
  case (Cons y ys)
  have tot: "cmp b a \<le> 0" if "0 < cmp a b" for a b
    using assms that unfolding consistentComparator_def by blast
  have tr: "cmp a c \<le> 0" if "cmp a b \<le> 0" and "cmp b c \<le> 0" for a b c
    using assms that unfolding consistentComparator_def by blast
  from Cons.prems have ys: "\<forall>z \<in> set ys. cmp y z \<le> 0"
    and s: "sorted_wrt (\<lambda>a b. cmp a b \<le> 0) ys"
    by simp_all
  show ?case
  proof (cases "cmp x y \<le> 0")
    case True
    have "\<forall>z \<in> set ys. cmp x z \<le> 0"
    proof
      fix z
      assume "z \<in> set ys"
      with ys have "cmp y z \<le> 0" by blast
      with True show "cmp x z \<le> 0" by (rule tr)
    qed
    with True ys s show ?thesis by simp
  next
    case False
    then have "cmp y x \<le> 0" using tot [of x y] by simp
    moreover have "sorted_wrt (\<lambda>a b. cmp a b \<le> 0) (insertBy cmp x ys)"
      using s by (rule Cons.IH)
    ultimately show ?thesis using False ys by (simp add: set_insertBy)
  qed
qed

lemma sorted_arraySort:
  "consistentComparator cmp \<Longrightarrow> sorted_wrt (\<lambda>a b. cmp a b \<le> 0) (arraySort cmp xs)"
  unfolding arraySort_def by (induction xs) (simp_all add: sorted_insertBy)

lemma compareContacts_le:
  "compareContacts rt a b \<le> 0 \<longleftrightarrow>
     unreadCount b < unreadCount a
     \<or> (unreadCount b = unreadCount a
        \<and> ((lastMessageTime a \<noteq> [] \<and> lastMessageTime b \<noteq> []
              \<and> localeCompare rt (lastMessageTime b) (lastMessageTime a) \<le> 0)
           \<or> (lastMessageTime a \<noteq> [] \<and> lastMessageTime b = [])
           \<or> (lastMessageTime a = [] \<and> lastMessageTime b = []
              \<and> localeCompare rt (cv_fullName a) (cv_fullName b) \<le> 0)))"
  by (auto simp: compareContacts_def)

lemma compareContacts_total:
  assumes tot: "\<And>x y. \<not> localeCompare rt x y \<le> 0 \<Longrightarrow> localeCompare rt y x \<le> 0"
    and n: "\<not> compareContacts rt a b \<le> 0"
  shows "compareContacts rt b a \<le> 0"
proof (cases "unreadCount a = unreadCount b")
  case False
  with n show ?thesis by (simp add: compareContacts_def)
next
  case True
  show ?thesis
  proof (cases "lastMessageTime a = []")
    case a: True
    show ?thesis
    proof (cases "lastMessageTime b = []")
      case b: True
      from n True a b have "\<not> localeCompare rt (cv_fullName a) (cv_fullName b) \<le> 0"
        by (simp add: compareContacts_def)
      then have "localeCompare rt (cv_fullName b) (cv_fullName a) \<le> 0" by (rule tot)
      with True a b show ?thesis by (simp add: compareContacts_def)
    next
      case b: False
      with True a show ?thesis by (simp add: compareContacts_def)
    qed
  next
    case a: False
    show ?thesis
    proof (cases "lastMessageTime b = []")
      case b: True
      with n True a show ?thesis by (simp add: compareContacts_def)
    next
      case b: False
      from n True a b have "\<not> localeCompare rt (lastMessageTime b) (lastMessageTime a) \<le> 0"
        by (simp add: compareContacts_def)
      then have "localeCompare rt (lastMessageTime a) (lastMessageTime b) \<le> 0" by (rule tot)
      with True a b show ?thesis by (simp add: compareContacts_def)
    qed
  qed
qed

lemma compareContacts_trans:
  assumes tr: "\<And>x y z. localeCompare rt x y \<le> 0 \<Longrightarrow> localeCompare rt y z \<le> 0
                 \<Longrightarrow> localeCompare rt x z \<le> 0"
    and ab: "compareContacts rt a b \<le> 0" and bc: "compareContacts rt b c \<le> 0"
  shows "compareContacts rt a c \<le> 0"
proof -
  note ab' = ab [unfolded compareContacts_le]
  note bc' = bc [unfolded compareContacts_le]
  show ?thesis
  proof (cases "unreadCount c < unreadCount a")
    case True
    then show ?thesis unfolding compareContacts_le by simp
  next
    case False
    with ab' bc' have eq: "unreadCount b = unreadCount a" "unreadCount c = unreadCount b"
      by linarith+
    from ab' eq have ab'': "(lastMessageTime a \<noteq> [] \<and> lastMessageTime b \<noteq> []
              \<and> localeCompare rt (lastMessageTime b) (lastMessageTime a) \<le> 0)
           \<or> (lastMessageTime a \<noteq> [] \<and> lastMessageTime b = [])
           \<or> (lastMessageTime a = [] \<and> lastMessageTime b = []
              \<and> localeCompare rt (cv_fullName a) (cv_fullName b) \<le> 0)"
      by simp
    from bc' eq have bc'': "(lastMessageTime b \<noteq> [] \<and> lastMessageTime c \<noteq> []
              \<and> localeCompare rt (lastMessageTime c) (lastMessageTime b) \<le> 0)
           \<or> (lastMessageTime b \<noteq> [] \<and> lastMessageTime c = [])
           \<or> (lastMessageTime b = [] \<and> lastMessageTime c = []
              \<and> localeCompare rt (cv_fullName b) (cv_fullName c) \<le> 0)"
      by simp
    have "(lastMessageTime a \<noteq> [] \<and> lastMessageTime c \<noteq> []
              \<and> localeCompare rt (lastMessageTime c) (lastMessageTime a) \<le> 0)
           \<or> (lastMessageTime a \<noteq> [] \<and> lastMessageTime c = [])
           \<or> (lastMessageTime a = [] \<and> lastMessageTime c = []
              \<and> localeCompare rt (cv_fullName a) (cv_fullName c) \<le> 0)"
      using ab'' bc'' tr [of "lastMessageTime c" "lastMessageTime b" "lastMessageTime a"]
        tr [of "cv_fullName a" "cv_fullName b" "cv_fullName c"]
      by blast
    with eq show ?thesis unfolding compareContacts_le by simp
  qed
qed

lemma compareContacts_consistent:
  assumes "consistentComparator (localeCompare rt)"
  shows "consistentComparator (compareContacts rt)"
proof -
  from assms have T: "\<forall>x y. 0 < localeCompare rt x y \<longrightarrow> localeCompare rt y x \<le> 0"
    unfolding consistentComparator_def by (rule conjunct1)
  from assms have R: "\<forall>x y z. localeCompare rt x y \<le> 0 \<and> localeCompare rt y z \<le> 0
                        \<longrightarrow> localeCompare rt x z \<le> 0"
    unfolding consistentComparator_def by (rule conjunct2)
  have tot: "localeCompare rt y x \<le> 0" if "\<not> localeCompare rt x y \<le> 0" for x y
  proof -
    from that have "0 < localeCompare rt x y" by linarith
    with T show ?thesis by blast
  qed
  have tr: "localeCompare rt x z \<le> 0"
    if "localeCompare rt x y \<le> 0" and "localeCompare rt y z \<le> 0" for x y z
    using R that by blast
  have 1: "compareContacts rt b a \<le> 0" if "0 < compareContacts rt a b" for a b
  proof (rule compareContacts_total [OF tot])
    from that show "\<not> compareContacts rt a b \<le> 0" by linarith
  qed
  have 2: "compareContacts rt a c \<le> 0"
    if "compareContacts rt a b \<le> 0 \<and> compareContacts rt b c \<le> 0" for a b c
  proof (rule compareContacts_trans [OF tr])
    from that show "compareContacts rt a b \<le> 0" by (rule conjunct1)
    from that show "compareContacts rt b c \<le> 0" by (rule conjunct2)
  qed
  show ?thesis
    unfolding consistentComparator_def
  proof (intro conjI allI impI)
    fix a b
    assume "0 < compareContacts rt a b"
    then show "compareContacts rt b a \<le> 0" by (rule 1)
  next
    fix a b c
    assume "compareContacts rt a b \<le> 0 \<and> compareContacts rt b c \<le> 0"
    then show "compareContacts rt a c \<le> 0" by (rule 2)
  qed
qed

lemma compareStrings_total: "0 < compareStrings a b \<Longrightarrow> compareStrings b a \<le> 0"
  by (induction a b rule: compareStrings.induct) (auto split: if_splits)

lemma compareStrings_nil: "compareStrings [] c \<le> 0"
  by (cases c) simp_all

lemma compareStrings_trans:
  "compareStrings a b \<le> 0 \<Longrightarrow> compareStrings b c \<le> 0 \<Longrightarrow> compareStrings a c \<le> 0"
proof (induction a b arbitrary: c rule: compareStrings.induct)
  case 1
  then show ?case by simp
next
  case (2 y ys)
  show ?case by (rule compareStrings_nil)
next
  case (3 x xs)
  then show ?case by simp
next
  case (4 x xs y ys)
  show ?case
  proof (cases c)
    case Nil
    with 4 show ?thesis by simp
  next
    case (Cons z zs)
    show ?thesis
    proof (cases "(of_char x :: nat) < of_char y")
      case True
      with 4(3) Cons have "(of_char x :: nat) < of_char z" by (simp split: if_splits)
      then show ?thesis using Cons by simp
    next
      case False
      with 4(2) have xy: "(of_char x :: nat) = of_char y" and r: "compareStrings xs ys \<le> 0"
        by (simp_all split: if_splits)
      show ?thesis
      proof (cases "(of_char y :: nat) < of_char z")
        case True
        then show ?thesis using Cons xy by simp
      next
        case False
        with 4(3) Cons have yz: "(of_char y :: nat) = of_char z" and s: "compareStrings ys zs \<le> 0"
          by (simp_all split: if_splits)
        have "compareStrings xs zs \<le> 0"
          using 4(1) xy r s by simp
        then show ?thesis using Cons xy yz by simp
      qed
    qed
  qed
qed

lemma exampleRuntime_consistent: "consistentComparator (localeCompare exampleRuntime)"
  unfolding consistentComparator_def exampleRuntime_def
  using compareStrings_total compareStrings_trans by (simp, blast)

lemma getChatContacts_sorted:
  assumes "consistentComparator (localeCompare rt)"
    and "getChatContacts rt now u db = Inr (code, contacts)"
  shows "sorted_wrt (\<lambda>a b. compareContacts rt a b \<le> 0) contacts"
proof (cases "findById (users db) u")
  case None
  with assms(2) show ?thesis by (simp add: getChatContacts_def)
next
  case (Some cu)
  with assms(2) have "contacts = arraySort (compareContacts rt)
      (map (contactStats rt now (messages db) cu) (allContacts db cu))"
    by (simp add: getChatContacts_def Let_def)
  then show ?thesis
    using sorted_arraySort [OF compareContacts_consistent [OF assms(1)]] by simp
qed

text \<open>
  Claim C5. With a collation that is a consistent comparator, the contact list that
  \<open>getChatContacts\<close> answers with is ordered as follows, for any entry and any later
  entry: the earlier has at least as many unread messages; with equal unread counts,
  if both have a label the earlier one's label is not smaller in the collation, an
  entry without a label never precedes one with a label, and if neither has a label the
  earlier one's name is not greater. In particular an entry with 5 unread messages
  comes before any entry with 3.
\<close>

theorem getChatContacts_order:
  assumes "consistentComparator (localeCompare rt)"
    and "getChatContacts rt now u db = Inr (code, contacts)"
  shows "(\<forall>i j. i < j \<and> j < length contacts \<longrightarrow>
            unreadCount (contacts ! j) \<le> unreadCount (contacts ! i)
            \<and> (unreadCount (contacts ! i) = unreadCount (contacts ! j) \<longrightarrow>
                 (lastMessageTime (contacts ! i) \<noteq> [] \<and> lastMessageTime (contacts ! j) \<noteq> [] \<longrightarrow>
                    localeCompare rt (lastMessageTime (contacts ! j))
                      (lastMessageTime (contacts ! i)) \<le> 0)
                 \<and> \<not> (lastMessageTime (contacts ! i) = [] \<and> lastMessageTime (contacts ! j) \<noteq> [])
                 \<and> (lastMessageTime (contacts ! i) = [] \<and> lastMessageTime (contacts ! j) = [] \<longrightarrow>
                      localeCompare rt (cv_fullName (contacts ! i))
                        (cv_fullName (contacts ! j)) \<le> 0)))
         \<and> (\<forall>i j. i < length contacts \<and> j < length contacts
                \<and> unreadCount (contacts ! i) = 5 \<and> unreadCount (contacts ! j) = 3 \<longrightarrow> i < j)"
proof -
  have s: "sorted_wrt (\<lambda>a b. compareContacts rt a b \<le> 0) contacts"
    using assms by (rule getChatContacts_sorted)
  have le: "compareContacts rt (contacts ! i) (contacts ! j) \<le> 0"
    if "i < j" and "j < length contacts" for i j
    using s that by (rule sorted_wrt_nth_less)
  have 1: "unreadCount (contacts ! j) \<le> unreadCount (contacts ! i)
            \<and> (unreadCount (contacts ! i) = unreadCount (contacts ! j) \<longrightarrow>
                 (lastMessageTime (contacts ! i) \<noteq> [] \<and> lastMessageTime (contacts ! j) \<noteq> [] \<longrightarrow>
                    localeCompare rt (lastMessageTime (contacts ! j))
                      (lastMessageTime (contacts ! i)) \<le> 0)
                 \<and> \<not> (lastMessageTime (contacts ! i) = [] \<and> lastMessageTime (contacts ! j) \<noteq> [])
                 \<and> (lastMessageTime (contacts ! i) = [] \<and> lastMessageTime (contacts ! j) = [] \<longrightarrow>
                      localeCompare rt (cv_fullName (contacts ! i))
                        (cv_fullName (contacts ! j)) \<le> 0))"
    if "i < j \<and> j < length contacts" for i j
    using le [of i j] that unfolding compareContacts_le by auto
  have 2: "i < j"
    if h: "i < length contacts \<and> j < length contacts
           \<and> unreadCount (contacts ! i) = 5 \<and> unreadCount (contacts ! j) = 3" for i j
  proof (rule ccontr)
    assume "\<not> i < j"
    moreover from h have "i \<noteq> j" by auto
    ultimately have "j < i" by simp
    with h have "unreadCount (contacts ! i) \<le> unreadCount (contacts ! j)"
      using 1 [of j i] by simp
    with h show False by simp
  qed
  from 1 2 show ?thesis by blast
qed

lemma inboxDb_contacts:
  "getChatContacts exampleRuntime 5000 bobId inboxDb = Inr (200, inboxContacts)"
  by (simp add: getChatContacts_def inboxDb_def findById_def alice_def bob_def mia_def ada_def
        hello_def allContacts_def contactsWithMessages_def sortCreatedDesc_def
        messageUserIds_def setAdd_def roleContacts_def findByRole_def mergeContacts_def
        contactStats_def unreadFrom_def between_def findOne_def formatLastMessageTime_def
        msPerDay_def exampleRuntime_def arraySort_def compareContacts_def Let_def
        inboxContacts_def)


theorem getChatContacts_order_witness:
  "consistentComparator (localeCompare exampleRuntime)
   \<and> getChatContacts exampleRuntime 5000 bobId inboxDb = Inr (200, inboxContacts)
   \<and> map cv_id inboxContacts = [miaId, aliceId, adaId]
   \<and> map unreadCount inboxContacts = [2, 1, 0]
   \<and> (0 :: nat) < 1 \<and> 1 < length inboxContacts
   \<and> unreadCount (inboxContacts ! 1) \<le> unreadCount (inboxContacts ! 0)"
proof -
  have l: "(0 :: nat) < 1 \<and> 1 < length inboxContacts" by (simp add: inboxContacts_def)
  have "unreadCount (inboxContacts ! 1) \<le> unreadCount (inboxContacts ! 0)"
    using getChatContacts_order [OF exampleRuntime_consistent inboxDb_contacts,
        THEN conjunct1, rule_format, OF l]
    by (rule conjunct1)
  moreover have "map cv_id inboxContacts = [miaId, aliceId, adaId]"
    and "map unreadCount inboxContacts = [2, 1, 0]"
    by (simp_all add: inboxContacts_def)
  ultimately show ?thesis
    using exampleRuntime_consistent inboxDb_contacts l by (intro conjI) simp_all
qed

end
